theory Spec2Isabelle
  imports Main "HOL-Library.Sublist" "HOL-Library.Code_Target_Nat"
begin

section \<open>Strings\<close>

text \<open>
  A JavaScript string is a sequence of UTF-16 code units. Paths, names, queries and
  messages are modelled as a \<^typ>\<open>string\<close>: a list of characters, each read as one code
  unit in the range U+0000 .. U+00FF. The content of a note ranges over all JavaScript
  strings: it is a list of code units, each a natural number below 65536 (see the section
  on UTF-8 below). The string methods used by \<^verbatim>\<open>src/index.ts\<close> are given under their
  JavaScript names.
\<close>

definition startsWith :: "string \<Rightarrow> string \<Rightarrow> bool" where
  "startsWith s d = prefix d s"

definition endsWith :: "string \<Rightarrow> string \<Rightarrow> bool" where
  "endsWith s d = suffix d s"

definition str_includes :: "string \<Rightarrow> string \<Rightarrow> bool" where
  "str_includes s q = sublist q s"

text \<open>\<^verbatim>\<open>String.prototype.toLowerCase\<close> on code units up to U+00FF: the letters A-Z and
  the Latin-1 capitals U+00C0 .. U+00DE (without the multiplication sign U+00D7) move up
  by 32.\<close>

definition lowerChar :: "char \<Rightarrow> char" where
  "lowerChar c =
     (let n = (of_char c :: nat) in
      if (65 \<le> n \<and> n \<le> 90) \<or> (192 \<le> n \<and> n \<le> 222 \<and> n \<noteq> 215)
      then char_of (n + 32) else c)"

definition toLowerCase :: "string \<Rightarrow> string" where
  "toLowerCase s = map lowerChar s"

text \<open>\<^verbatim>\<open>Array.prototype.join\<close>.\<close>

fun joinWith :: "'a list \<Rightarrow> 'a list list \<Rightarrow> 'a list" where
  "joinWith d [] = []"
| "joinWith d [x] = x"
| "joinWith d (x # y # ys) = x @ d @ joinWith d (y # ys)"

text \<open>\<^verbatim>\<open>s.split(d)\<close> for a one-character separator \<open>d\<close>: the result is never empty, and
  the empty string splits into one empty segment.\<close>

fun splitOn :: "char \<Rightarrow> string \<Rightarrow> string list" where
  "splitOn d [] = [[]]"
| "splitOn d (c # cs) =
     (case splitOn d cs of
        [] \<Rightarrow> (if c = d then [[], []] else [[c]])
      | s # ss \<Rightarrow> (if c = d then [] # s # ss else (c # s) # ss))"

text \<open>The white space class \<^verbatim>\<open>\s\<close> of a JavaScript regular expression, on code units
  up to U+00FF: tab, line feed, vertical tab, form feed, carriage return, space and the
  no-break space.\<close>

definition isSpace :: "char \<Rightarrow> bool" where
  "isSpace c = ((of_char c :: nat) \<in> {9, 10, 11, 12, 13, 32, 160})"

text \<open>\<^verbatim>\<open>s.split(/\s+/)\<close>: the string is cut at every maximal run of white space; a run at
  the start or at the end leaves an empty piece there. The flag says that the character
  before was white space, so that a run cuts once.\<close>

fun splitWs :: "string \<Rightarrow> bool \<Rightarrow> string \<Rightarrow> string list" where
  "splitWs acc inRun [] = [rev acc]"
| "splitWs acc inRun (c # cs) =
     (if isSpace c then (if inRun then splitWs [] True cs else rev acc # splitWs [] True cs)
      else splitWs (c # acc) False cs)"

text \<open>Decimal rendering of a number inside a template literal.\<close>

definition digitChar :: "nat \<Rightarrow> char" where
  "digitChar d = char_of (48 + d)"

fun showNat :: "nat \<Rightarrow> string" where
  "showNat n = (if n < 10 then [digitChar n] else showNat (n div 10) @ [digitChar (n mod 10)])"

declare showNat.simps [simp del]

section \<open>Code units and UTF-8\<close>

text \<open>
  \<^verbatim>\<open>fs.writeFile(path, content, "utf8")\<close> stores the UTF-8 encoding of the string and
  \<^verbatim>\<open>fs.readFile(path, "utf-8")\<close> decodes the bytes of the file. Code units, code points
  and bytes are natural numbers.
\<close>

text \<open>The surrogate code units: a high one followed by a low one stands for one code
  point above U+FFFF.\<close>

definition isHigh :: "nat \<Rightarrow> bool" where
  "isHigh u = (55296 \<le> u \<and> u \<le> 56319)"

definition isLow :: "nat \<Rightarrow> bool" where
  "isLow u = (56320 \<le> u \<and> u \<le> 57343)"

definition isSurrogate :: "nat \<Rightarrow> bool" where
  "isSurrogate u = (55296 \<le> u \<and> u \<le> 57343)"


text \<open>The code units of a string of the first kind.\<close>

definition units :: "string \<Rightarrow> nat list" where
  "units s = map of_char s"

text \<open>The encoder behind \<^verbatim>\<open>Buffer.from(content, "utf8")\<close>: one byte below U+0080, two
  below U+0800, three for the other code units, four for a surrogate pair; a surrogate
  that is not part of a pair is written as the replacement character U+FFFD.\<close>

definition encode3 :: "nat \<Rightarrow> nat list" where
  "encode3 u = [224 + u div 4096, 128 + (u div 64) mod 64, 128 + u mod 64]"

definition codePoint :: "nat \<Rightarrow> nat \<Rightarrow> nat" where
  "codePoint hi lo = 65536 + (hi - 55296) * 1024 + (lo - 56320)"

definition encode4 :: "nat \<Rightarrow> nat list" where
  "encode4 cp = [240 + cp div 262144, 128 + (cp div 4096) mod 64, 128 + (cp div 64) mod 64,
                 128 + cp mod 64]"

fun utf8Encode :: "nat list \<Rightarrow> nat list" where
  "utf8Encode [] = []"
| "utf8Encode [u] =
     (if u < 128 then [u]
      else if u < 2048 then [192 + u div 64, 128 + u mod 64]
      else if isSurrogate u then encode3 65533
      else encode3 u)"
| "utf8Encode (u # v # rest) =
     (if u < 128 then u # utf8Encode (v # rest)
      else if u < 2048 then [192 + u div 64, 128 + u mod 64] @ utf8Encode (v # rest)
      else if isHigh u \<and> isLow v then encode4 (codePoint u v) @ utf8Encode rest
      else if isSurrogate u then encode3 65533 @ utf8Encode (v # rest)
      else encode3 u @ utf8Encode (v # rest))"

text \<open>The decoder behind \<^verbatim>\<open>buffer.toString("utf8")\<close>: a well-formed sequence gives its
  code point (as a surrogate pair above U+FFFF); a byte that cannot start a sequence, or
  a sequence cut short by a byte that cannot continue it, gives one U+FFFD, and decoding
  goes on at the offending byte. Overlong forms, encoded surrogates and code points above
  U+10FFFF are excluded by the bounds on the second byte. A byte order mark is kept.\<close>

definition continuation :: "nat \<Rightarrow> bool" where
  "continuation b = (128 \<le> b \<and> b \<le> 191)"

definition surrogates :: "nat \<Rightarrow> nat list" where
  "surrogates cp =
     (if cp < 65536 then [cp]
      else [55296 + (cp - 65536) div 1024, 56320 + (cp - 65536) mod 1024])"

fun utf8Decode :: "nat list \<Rightarrow> nat list" where
  "utf8Decode [] = []"
| "utf8Decode (b # bs) =
     (if b < 128 then b # utf8Decode bs
      else if 194 \<le> b \<and> b \<le> 223 then
        (case bs of
           [] \<Rightarrow> [65533]
         | b1 # r1 \<Rightarrow>
             if continuation b1 then ((b mod 32) * 64 + b1 mod 64) # utf8Decode r1
             else 65533 # utf8Decode bs)
      else if 224 \<le> b \<and> b \<le> 239 then
        (case bs of
           [] \<Rightarrow> [65533]
         | b1 # r1 \<Rightarrow>
             if (if b = 224 then 160 else 128) \<le> b1 \<and> b1 \<le> (if b = 237 then 159 else 191) then
               (case r1 of
                  [] \<Rightarrow> [65533]
                | b2 # r2 \<Rightarrow>
                    if continuation b2
                    then ((b mod 16) * 4096 + (b1 mod 64) * 64 + b2 mod 64) # utf8Decode r2
                    else 65533 # utf8Decode r1)
             else 65533 # utf8Decode bs)
      else if 240 \<le> b \<and> b \<le> 244 then
        (case bs of
           [] \<Rightarrow> [65533]
         | b1 # r1 \<Rightarrow>
             if (if b = 240 then 144 else 128) \<le> b1 \<and> b1 \<le> (if b = 244 then 143 else 191) then
               (case r1 of
                  [] \<Rightarrow> [65533]
                | b2 # r2 \<Rightarrow>
                    if continuation b2 then
                      (case r2 of
                         [] \<Rightarrow> [65533]
                       | b3 # r3 \<Rightarrow>
                           if continuation b3
                           then surrogates ((b mod 8) * 262144 + (b1 mod 64) * 4096
                                            + (b2 mod 64) * 64 + b3 mod 64)
                                @ utf8Decode r3
                           else 65533 # utf8Decode r2)
                    else 65533 # utf8Decode r1)
             else 65533 # utf8Decode bs)
      else 65533 # utf8Decode bs)"



text \<open>The bytes of a file that holds the given text.\<close>

definition bytesOf :: "string \<Rightarrow> nat list" where
  "bytesOf s = utf8Encode (units s)"

section \<open>The path module (POSIX flavour)\<close>

text \<open>
  The program calls Node's \<^verbatim>\<open>path\<close> module. The definitions of this section model its
  POSIX implementation, where \<^verbatim>\<open>path.sep\<close> is the slash. Paths are processed segment by
  segment: \<open>normSegs\<close> is the loop of Node's \<^verbatim>\<open>normalizeString\<close>, which drops empty and
  \<^verbatim>\<open>.\<close> segments and lets \<^verbatim>\<open>..\<close> remove the segment before it; above the start of a
  relative path the \<^verbatim>\<open>..\<close> is kept, above the root it is dropped.
\<close>

definition sep :: char where
  "sep = CHR ''/''"

definition splitSep :: "string \<Rightarrow> string list" where
  "splitSep p = splitOn sep p"

fun normSegs :: "bool \<Rightarrow> string list \<Rightarrow> string list \<Rightarrow> string list" where
  "normSegs allowAbove res [] = res"
| "normSegs allowAbove res (s # ss) =
     (if s = [] \<or> s = ''.'' then normSegs allowAbove res ss
      else if s = ''..'' then
        (if res \<noteq> [] \<and> last res \<noteq> ''..'' then normSegs allowAbove (butlast res) ss
         else if allowAbove then normSegs allowAbove (res @ [''..'']) ss
         else normSegs allowAbove res ss)
      else normSegs allowAbove (res @ [s]) ss)"

definition normalizeString :: "bool \<Rightarrow> string \<Rightarrow> string" where
  "normalizeString allowAbove p = joinWith ''/'' (normSegs allowAbove [] (splitSep p))"

definition isAbsolute :: "string \<Rightarrow> bool" where
  "isAbsolute p = (p \<noteq> [] \<and> hd p = sep)"

definition path_normalize :: "string \<Rightarrow> string" where
  "path_normalize p =
     (if p = [] then ''.''
      else
        let isAbs = (hd p = sep);
            trailing = (last p = sep);
            q = normalizeString (\<not> isAbs) p
        in if q = [] then (if isAbs then ''/'' else if trailing then ''./'' else ''.'')
           else (if isAbs then ''/'' else []) @ q @ (if trailing then ''/'' else []))"

text \<open>\<^verbatim>\<open>path.join\<close>: the non-empty arguments, joined by slashes, are normalized.\<close>

definition path_join :: "string list \<Rightarrow> string" where
  "path_join args =
     (let parts = filter (\<lambda>a. a \<noteq> []) args
      in if parts = [] then ''.'' else path_normalize (joinWith ''/'' parts))"

text \<open>\<^verbatim>\<open>path.resolve\<close>: the arguments are taken from the right, and the working directory
  after them, until an absolute one has been prepended.\<close>

fun resolveArgs :: "string list \<Rightarrow> string \<Rightarrow> string \<times> bool" where
  "resolveArgs [] acc = (acc, False)"
| "resolveArgs (p # ps) acc =
     (if p = [] then resolveArgs ps acc
      else if hd p = sep then (p @ ''/'' @ acc, True)
      else resolveArgs ps (p @ ''/'' @ acc))"

definition path_resolve :: "string \<Rightarrow> string list \<Rightarrow> string" where
  "path_resolve cwd args =
     (case resolveArgs (rev args @ [cwd]) [] of
        (rp, isAbs) \<Rightarrow>
          let q = normalizeString (\<not> isAbs) rp
          in if isAbs then ''/'' @ q else if q \<noteq> [] then q else ''.'')"

text \<open>\<^verbatim>\<open>path.dirname\<close> scans the characters from the end down to index 1: it skips the
  trailing slashes, then the last segment, and cuts at the slash before it.\<close>

definition path_dirname :: "string \<Rightarrow> string" where
  "path_dirname p =
     (if p = [] then ''.''
      else
        let hasRoot = (hd p = sep);
            body = rev (dropWhile (\<lambda>c. c \<noteq> sep) (dropWhile (\<lambda>c. c = sep) (rev (tl p))))
        in if body = [] then (if hasRoot then ''/'' else ''.'')
           else if hasRoot \<and> length body = 1 then ''//''
           else hd p # butlast body)"

section \<open>The file system\<close>

text \<open>
  The program reaches the file system through Node's \<^verbatim>\<open>fs/promises\<close>. The model is a
  POSIX tree with symbolic links: a partial map from resolved locations (the list of
  names below the root directory) to nodes. A regular file holds its bytes, a symbolic
  link its target. Names are compared exactly (a case-sensitive file system).
\<close>

datatype node = Dir | File "nat list" | Link string

type_synonym fs = "string list \<Rightarrow> node option"

datatype errno = ENOENT | ENOTDIR | EISDIR | EEXIST | ELOOP

datatype lookup =
    Found "string list" | Missing "string list" | MissingDir "string list" | Fail errno

text \<open>The number of symbolic links one path resolution may follow.\<close>

definition SYMLOOP_MAX :: nat where
  "SYMLOOP_MAX = 40"

text \<open>
  Path resolution, component by component, from the resolved location \<open>cur\<close>. A symbolic
  link is replaced by the components of its target; the last component is followed only
  when \<open>follow\<close> is set. \<open>Missing r\<close> says that everything but the last component exists
  and that \<open>r\<close> is where the last one would be created; \<open>MissingDir r\<close> says the same
  of a path that ends in a slash after the missing component, where only a directory can
  be created.
\<close>

function walk :: "fs \<Rightarrow> bool \<Rightarrow> nat \<Rightarrow> string list \<Rightarrow> string list \<Rightarrow> lookup" where
  "walk fs follow hops cur [] = (case fs cur of None \<Rightarrow> Fail ENOENT | Some n \<Rightarrow> Found cur)"
| "walk fs follow hops cur (c # cs) =
     (case fs cur of
        None \<Rightarrow> Fail ENOENT
      | Some Dir \<Rightarrow>
          if c = [] \<or> c = ''.'' then walk fs follow hops cur cs
          else if c = ''..'' then walk fs follow hops (butlast cur) cs
          else
            (case fs (cur @ [c]) of
               None \<Rightarrow>
                 if cs = [] then Missing (cur @ [c])
                 else if list_all (\<lambda>x. x = []) cs then MissingDir (cur @ [c])
                 else Fail ENOENT
             | Some (Link t) \<Rightarrow>
                 if cs = [] \<and> \<not> follow then Found (cur @ [c])
                 else if t = [] then Fail ENOENT
                 else
                   (case hops of
                      0 \<Rightarrow> Fail ELOOP
                    | Suc k \<Rightarrow>
                        walk fs follow k (if isAbsolute t then [] else cur) (splitSep t @ cs))
             | Some Dir \<Rightarrow> walk fs follow hops (cur @ [c]) cs
             | Some (File x) \<Rightarrow> walk fs follow hops (cur @ [c]) cs)
      | Some (File x) \<Rightarrow> Fail ENOTDIR
      | Some (Link t) \<Rightarrow> Fail ENOTDIR)"
  by pat_completeness auto
termination
  by (relation "inv_image (less_than <*lex*> less_than)
                  (\<lambda>(fs, follow, hops, cur, cs). (hops, length cs))") auto

text \<open>The program's environment: the one vault directory of the command line (stored
  normalized at start), the home directory and the working directory of the process.\<close>

record env =
  vaultDir :: string
  homedir :: string
  cwd :: string

definition lookupPath :: "env \<Rightarrow> fs \<Rightarrow> bool \<Rightarrow> string \<Rightarrow> lookup" where
  "lookupPath env fs follow p =
     (if p = [] then Fail ENOENT
      else walk fs follow SYMLOOP_MAX []
             (if isAbsolute p then splitSep p else splitSep (cwd env) @ splitSep p))"

definition render :: "string list \<Rightarrow> string" where
  "render r = ''/'' @ joinWith ''/'' r"

definition fs_realpath :: "env \<Rightarrow> fs \<Rightarrow> string \<Rightarrow> errno + string" where
  "fs_realpath env fs p =
     (case lookupPath env fs True p of
        Found r \<Rightarrow> Inr (render r)
      | Missing r \<Rightarrow> Inl ENOENT
      | MissingDir r \<Rightarrow> Inl ENOENT
      | Fail e \<Rightarrow> Inl e)"

definition fs_access :: "env \<Rightarrow> fs \<Rightarrow> string \<Rightarrow> errno + unit" where
  "fs_access env fs p =
     (case lookupPath env fs True p of
        Found r \<Rightarrow> Inr ()
      | Missing r \<Rightarrow> Inl ENOENT
      | MissingDir r \<Rightarrow> Inl ENOENT
      | Fail e \<Rightarrow> Inl e)"

text \<open>\<^verbatim>\<open>fs.readFile(p, "utf-8")\<close>: the bytes of the file, decoded.\<close>

definition fs_readFile :: "env \<Rightarrow> fs \<Rightarrow> string \<Rightarrow> errno + nat list" where
  "fs_readFile env fs p =
     (case lookupPath env fs True p of
        Found r \<Rightarrow> (case fs r of Some (File bytes) \<Rightarrow> Inr (utf8Decode bytes) | _ \<Rightarrow> Inl EISDIR)
      | Missing r \<Rightarrow> Inl ENOENT
      | MissingDir r \<Rightarrow> Inl ENOENT
      | Fail e \<Rightarrow> Inl e)"

text \<open>\<^verbatim>\<open>fs.writeFile(p, content, "utf8")\<close> opens with creation and truncation: an
  existing file is overwritten, a missing last component is created in its existing
  directory, unless a slash follows it; the file then holds the encoded content.\<close>

definition fs_writeFile :: "env \<Rightarrow> fs \<Rightarrow> string \<Rightarrow> nat list \<Rightarrow> errno + fs" where
  "fs_writeFile env fs p content =
     (case lookupPath env fs True p of
        Found r \<Rightarrow>
          (case fs r of
             Some (File old) \<Rightarrow> Inr (fs(r \<mapsto> File (utf8Encode content)))
           | _ \<Rightarrow> Inl EISDIR)
      | Missing r \<Rightarrow> Inr (fs(r \<mapsto> File (utf8Encode content)))
      | MissingDir r \<Rightarrow> Inl EISDIR
      | Fail e \<Rightarrow> Inl e)"

text \<open>The \<^verbatim>\<open>mkdir\<close> system call does not follow a link in the last component.\<close>

definition mkdir1 :: "env \<Rightarrow> fs \<Rightarrow> string \<Rightarrow> errno + fs" where
  "mkdir1 env fs p =
     (case lookupPath env fs False p of
        Found r \<Rightarrow> Inl EEXIST
      | Missing r \<Rightarrow> Inr (fs(r \<mapsto> Dir))
      | MissingDir r \<Rightarrow> Inr (fs(r \<mapsto> Dir))
      | Fail e \<Rightarrow> Inl e)"

text \<open>After a failed \<^verbatim>\<open>mkdir\<close>, the recursive variant accepts a path that is a directory
  already.\<close>

definition statIsDir :: "env \<Rightarrow> fs \<Rightarrow> string \<Rightarrow> errno option" where
  "statIsDir env fs p =
     (case lookupPath env fs True p of
        Found r \<Rightarrow> (if fs r = Some Dir then None else Some EEXIST)
      | Missing r \<Rightarrow> Some ENOENT
      | MissingDir r \<Rightarrow> Some ENOENT
      | Fail e \<Rightarrow> Some e)"

text \<open>\<^verbatim>\<open>fs.mkdir(p, { recursive: true })\<close>: when the parent is missing it is created first
  and the call is repeated; the climb ends where the parent of a path is not a shorter
  path. The result is the file system afterwards (directories created before a failure
  stay) and the error, if any.\<close>

function mkdirp :: "env \<Rightarrow> fs \<Rightarrow> string \<Rightarrow> fs \<times> errno option" where
  "mkdirp env fs p =
     (case mkdir1 env fs p of
        Inr fs' \<Rightarrow> (fs', None)
      | Inl e \<Rightarrow>
          if e = ENOENT then
            (if \<not> length (path_dirname p) < length p then (fs, Some ENOENT)
             else
               (case mkdirp env fs (path_dirname p) of
                  (fs', Some e') \<Rightarrow> (fs', Some e')
                | (fs', None) \<Rightarrow>
                    (case mkdir1 env fs' p of
                       Inr fs'' \<Rightarrow> (fs'', None)
                     | Inl e'' \<Rightarrow> (fs', if e'' = ENOTDIR then Some e'' else statIsDir env fs' p))))
          else if e = ENOTDIR then (fs, Some e)
          else (fs, statIsDir env fs p))"
  by pat_completeness auto
termination
  by (relation "measure (\<lambda>(env, fs, p). length p)") auto

declare mkdirp.simps [simp del]

definition fs_mkdir_recursive :: "env \<Rightarrow> fs \<Rightarrow> string \<Rightarrow> fs \<times> errno option" where
  "fs_mkdir_recursive env fs p = mkdirp env fs p"

section \<open>Errors\<close>

text \<open>
  The program throws \<^verbatim>\<open>Error\<close> objects that differ in their message only. Each message
  of \<^verbatim>\<open>src/index.ts\<close> is a constructor; \<open>FsError\<close> is a rejection of a file system
  call on a path (error code, system call, path), \<open>FdError\<close> a rejection of a call on
  an open file (error code, system call: Node's message for it names no path), and
  \<open>WriteFailed\<close> is the wrapper the \<^verbatim>\<open>write_note\<close> handler puts around whatever it
  caught. The system messages have the wording of Node on Linux.
\<close>

datatype error =
    HiddenDenied
  | OutsideDenied string "string list"
  | SymlinkDenied
  | ParentDenied
  | ParentMissing string
  | FileMissing string
  | FsError errno string string
  | FdError errno string
  | WriteFailed error

definition errnoName :: "errno \<Rightarrow> string" where
  "errnoName e =
     (case e of
        ENOENT \<Rightarrow> ''ENOENT: no such file or directory''
      | ENOTDIR \<Rightarrow> ''ENOTDIR: not a directory''
      | EISDIR \<Rightarrow> ''EISDIR: illegal operation on a directory''
      | EEXIST \<Rightarrow> ''EEXIST: file already exists''
      | ELOOP \<Rightarrow> ''ELOOP: too many symbolic links encountered'')"

fun message :: "error \<Rightarrow> string" where
  "message HiddenDenied = ''Access denied - hidden files/directories not allowed''"
| "message (OutsideDenied absolute dirs) =
     ''Access denied - path outside allowed directories: '' @ absolute @ '' not in ''
       @ joinWith '', '' dirs"
| "message SymlinkDenied = ''Access denied - symlink target outside allowed directories''"
| "message ParentDenied = ''Access denied - parent directory outside allowed directories''"
| "message (ParentMissing parentDir) = ''Parent directory does not exist: '' @ parentDir"
| "message (FileMissing notePath) = ''File does not exist: '' @ notePath"
| "message (FsError e syscall p) =
     errnoName e @ '', '' @ syscall @ '' '' @ [CHR 0x27] @ p @ [CHR 0x27]"
| "message (FdError e syscall) = errnoName e @ '', '' @ syscall"
| "message (WriteFailed e) = ''Failed to write note: '' @ message e"

text \<open>The conditions of the specification's taxonomy, read off the message.\<close>

definition accessDenied :: "error \<Rightarrow> bool" where
  "accessDenied e = startsWith (message e) ''Access denied''"

section \<open>Security utilities\<close>

definition normalizePath :: "string \<Rightarrow> string" where
  "normalizePath p = toLowerCase (path_normalize p)"

definition expandHome :: "string \<Rightarrow> string \<Rightarrow> string" where
  "expandHome home filepath =
     (if startsWith filepath ''~/'' \<or> filepath = ''~''
      then path_join [home, drop 1 filepath]
      else filepath)"

text \<open>\<^verbatim>\<open>vaultDirectories\<close> is the one-element array built at start.\<close>

definition vaultDirectories :: "env \<Rightarrow> string list" where
  "vaultDirectories env = [vaultDir env]"

definition startup :: "string \<Rightarrow> string \<Rightarrow> string \<Rightarrow> env" where
  "startup home wd arg =
     \<lparr> vaultDir = normalizePath (path_resolve wd [expandHome home arg]),
       homedir = home, cwd = wd \<rparr>"

text \<open>The file system calls \<open>validatePath\<close> makes, in order, are recorded beside its
  result.\<close>

datatype fs_call = Realpath string

text \<open>The \<^verbatim>\<open>try\<close> block of lines 85-96: a rejection of \<^verbatim>\<open>fs.realpath\<close> and the error
  thrown for a real path outside the vault both leave the block as an exception.\<close>

definition tryRealPath :: "env \<Rightarrow> fs \<Rightarrow> string \<Rightarrow> error + string" where
  "tryRealPath env fs absolute =
     (case fs_realpath env fs absolute of
        Inl e \<Rightarrow> Inl (FsError e ''realpath'' absolute)
      | Inr realPath \<Rightarrow>
          let normalizedReal = normalizePath realPath;
              isRealPathAllowed =
                list_ex (\<lambda>dir. startsWith normalizedReal dir) (vaultDirectories env)
          in if \<not> isRealPathAllowed then Inl SymlinkDenied else Inr realPath)"

text \<open>The inner \<^verbatim>\<open>try\<close> block of lines 100-111.\<close>

definition tryParent :: "env \<Rightarrow> fs \<Rightarrow> string \<Rightarrow> string \<Rightarrow> error + string" where
  "tryParent env fs absolute parentDir =
     (case fs_realpath env fs parentDir of
        Inl e \<Rightarrow> Inl (FsError e ''realpath'' parentDir)
      | Inr realParentPath \<Rightarrow>
          let normalizedParent = normalizePath realParentPath;
              isParentAllowed =
                list_ex (\<lambda>dir. startsWith normalizedParent dir) (vaultDirectories env)
          in if \<not> isParentAllowed then Inl ParentDenied else Inr absolute)"

text \<open>Lines 65-68: the absolute form of the requested path.\<close>

definition absoluteOf :: "env \<Rightarrow> string \<Rightarrow> string" where
  "absoluteOf env requestedPath =
     (let expandedPath = expandHome (homedir env) requestedPath
      in if isAbsolute expandedPath then path_resolve (cwd env) [expandedPath]
         else path_resolve (cwd env) [cwd env, expandedPath])"

definition validatePath :: "env \<Rightarrow> fs \<Rightarrow> string \<Rightarrow> fs_call list \<times> (error + string)" where
  "validatePath env fs requestedPath =
     (let pathParts = splitSep requestedPath in
      if list_ex (\<lambda>part. startsWith part ''.'') pathParts then ([], Inl HiddenDenied)
      else
        let absolute = absoluteOf env requestedPath;
            normalizedRequested = normalizePath absolute;
            isAllowed =
              list_ex (\<lambda>dir. startsWith normalizedRequested dir) (vaultDirectories env)
        in if \<not> isAllowed then ([], Inl (OutsideDenied absolute (vaultDirectories env)))
           else
             (case tryRealPath env fs absolute of
                Inr realPath \<Rightarrow> ([Realpath absolute], Inr realPath)
              | Inl caught \<Rightarrow>
                  let parentDir = path_dirname absolute in
                  (case tryParent env fs absolute parentDir of
                     Inr ok \<Rightarrow> ([Realpath absolute, Realpath parentDir], Inr ok)
                   | Inl caught' \<Rightarrow>
                       ([Realpath absolute, Realpath parentDir],
                        Inl (ParentMissing parentDir)))))"

definition validate :: "env \<Rightarrow> fs \<Rightarrow> string \<Rightarrow> error + string" where
  "validate env fs requestedPath = snd (validatePath env fs requestedPath)"

section \<open>Search\<close>

text \<open>
  \<^verbatim>\<open>new RegExp(source, "i")\<close> belongs to the language: it is a parameter \<open>re\<close> here, which
  gives \<open>None\<close> where the constructor throws a syntax error and the \<^verbatim>\<open>test\<close> method of
  the compiled pattern otherwise.
\<close>

type_synonym regexp = "string \<Rightarrow> (string \<Rightarrow> bool) option"

text \<open>\<^verbatim>\<open>query.replace(/[*]/g, ".*")\<close>.\<close>

definition replaceStars :: "string \<Rightarrow> string" where
  "replaceStars query = concat (map (\<lambda>c. if c = CHR ''*'' then ''.*'' else [c]) query)"

text \<open>\<^verbatim>\<open>s.replace(pat, rep)\<close> for a string pattern: the first occurrence only.\<close>

fun replaceFirst :: "string \<Rightarrow> string \<Rightarrow> string \<Rightarrow> string" where
  "replaceFirst [] pat rep = (if pat = [] then rep else [])"
| "replaceFirst (c # cs) pat rep =
     (if prefix pat (c # cs) then rep @ drop (length pat) (c # cs)
      else c # replaceFirst cs pat rep)"

definition keywordsOf :: "string \<Rightarrow> string list" where
  "keywordsOf query = filter (\<lambda>k. length k > 0) (splitWs [] False (toLowerCase query))"

text \<open>Lines 173-192: the value of \<^verbatim>\<open>matches\<close> for one entry name.\<close>

definition entryMatches :: "regexp \<Rightarrow> string \<Rightarrow> string \<Rightarrow> bool" where
  "entryMatches re query name =
     (let keywords = keywordsOf query;
          filename = toLowerCase name;
          matches =
            (if str_includes filename (toLowerCase query) then True
             else (case re (replaceStars query) of
                     None \<Rightarrow> False
                   | Some test \<Rightarrow> test name))
      in if \<not> matches \<and> length keywords > 0
         then list_ex (\<lambda>keyword. str_includes filename keyword) keywords
         else matches)"

text \<open>Lines 165-198: what one directory entry adds to \<^verbatim>\<open>results\<close>. An entry that fails
  validation is skipped by the \<^verbatim>\<open>catch\<close>.\<close>

definition searchEntry ::
    "regexp \<Rightarrow> env \<Rightarrow> fs \<Rightarrow> string \<Rightarrow> string \<Rightarrow> string \<Rightarrow> string \<Rightarrow> string list" where
  "searchEntry re env fs query basePath currentPath name =
     (let fullPath = path_join [currentPath, name] in
      case validate env fs fullPath of
        Inl e \<Rightarrow> []
      | Inr ok \<Rightarrow>
          if endsWith name ''.md'' \<and> entryMatches re query name
          then [replaceFirst fullPath basePath []]
          else [])"

definition SEARCH_LIMIT :: nat where
  "SEARCH_LIMIT = 200"

text \<open>Lines 287-300: the text of the \<^verbatim>\<open>search_notes\<close> reply for the collected results.\<close>

definition searchText :: "string list \<Rightarrow> string" where
  "searchText results =
     (let limitedResults = take SEARCH_LIMIT results in
      (if length limitedResults > 0 then joinWith [CHR 0x0A] limitedResults
       else ''No matches found'')
      @ (if length results > SEARCH_LIMIT
         then [CHR 0x0A, CHR 0x0A] @ ''... '' @ showNat (length results - SEARCH_LIMIT)
                @ '' more results not shown.''
         else []))"

section \<open>The directory walk\<close>

text \<open>
  \<^verbatim>\<open>fs.readdir(currentPath, { withFileTypes: true })\<close> delivers the entries of a
  directory, each with its name and whether it is a directory (a symbolic link is not).
  The walk is modelled over what these calls deliver: an entry carries the entries of
  its own directory. \<open>search\<close> is the \<^verbatim>\<open>for\<close> loop of lines 164-207 and \<open>searchStep\<close>
  its body: an entry that fails validation is skipped together with everything below
  it, and a directory is entered after its own name was tried.
\<close>

datatype dirent = Dirent string bool "dirent list"

fun search :: "regexp \<Rightarrow> env \<Rightarrow> fs \<Rightarrow> string \<Rightarrow> string \<Rightarrow> string \<Rightarrow> dirent list \<Rightarrow> string list"
  and searchStep :: "regexp \<Rightarrow> env \<Rightarrow> fs \<Rightarrow> string \<Rightarrow> string \<Rightarrow> string \<Rightarrow> dirent \<Rightarrow> string list"
where
  "search re env fs query basePath currentPath [] = []"
| "search re env fs query basePath currentPath (entry # entries) =
     searchStep re env fs query basePath currentPath entry
     @ search re env fs query basePath currentPath entries"
| "searchStep re env fs query basePath currentPath (Dirent name isDirectory below) =
     (let fullPath = path_join [currentPath, name] in
      case validate env fs fullPath of
        Inl e \<Rightarrow> []
      | Inr ok \<Rightarrow>
          (if endsWith name ''.md'' \<and> entryMatches re query name
           then [replaceFirst fullPath basePath []] else [])
          @ (if isDirectory then search re env fs query basePath fullPath below else []))"

text \<open>\<^verbatim>\<open>searchNotes\<close>: the walk starts at the vault directory. \<open>listing\<close> is what
  \<^verbatim>\<open>fs.readdir\<close> delivers for the vault: its entries, or the error code with which the
  call, and with it the promise, is rejected.\<close>

definition searchNotes ::
    "regexp \<Rightarrow> env \<Rightarrow> fs \<Rightarrow> string \<Rightarrow> errno + dirent list \<Rightarrow> error + string list" where
  "searchNotes re env fs query listing =
     (case listing of
        Inl e \<Rightarrow> Inl (FsError e ''scandir'' (vaultDir env))
      | Inr entries \<Rightarrow> Inr (search re env fs query (vaultDir env) (vaultDir env) entries))"

definition search_notes ::
    "regexp \<Rightarrow> env \<Rightarrow> fs \<Rightarrow> string \<Rightarrow> errno + dirent list \<Rightarrow> error + string" where
  "search_notes re env fs query listing =
     (case searchNotes re env fs query listing of
        Inl e \<Rightarrow> Inl e
      | Inr results \<Rightarrow> Inr (searchText results))"

text \<open>The number of entries the walk can visit.\<close>

fun entryCount :: "dirent \<Rightarrow> nat" where
  "entryCount (Dirent name isDirectory below) = Suc (sum_list (map entryCount below))"

section \<open>Tool handlers\<close>

text \<open>Lines 260-274: the entry of one requested path. Every exception is caught and
  becomes the text of the entry. Reading a directory is rejected by the \<^verbatim>\<open>read\<close> on the
  opened file, any other failure by \<^verbatim>\<open>open\<close>.\<close>

definition readNote :: "env \<Rightarrow> fs \<Rightarrow> string \<Rightarrow> error + nat list" where
  "readNote env fs filePath =
     (let normalizedPath = (if startsWith filePath ''/'' then drop 1 filePath else filePath) in
      case validate env fs (path_join [vaultDir env, normalizedPath]) of
        Inl e \<Rightarrow> Inl e
      | Inr validPath \<Rightarrow>
          (case fs_readFile env fs validPath of
             Inl e \<Rightarrow> Inl (if e = EISDIR then FdError e ''read'' else FsError e ''open'' validPath)
           | Inr content \<Rightarrow> Inr content))"

definition readEntry :: "env \<Rightarrow> fs \<Rightarrow> string \<Rightarrow> nat list" where
  "readEntry env fs filePath =
     (case readNote env fs filePath of
        Inr content \<Rightarrow> units (filePath @ '':'' @ [CHR 0x0A]) @ content @ units [CHR 0x0A]
      | Inl e \<Rightarrow> units (filePath @ '': Error - '' @ message e))"

text \<open>Line 277: the entries are joined by a line feed, three hyphens and a line
  feed.\<close>

definition separator :: string where
  "separator = [CHR 0x0A] @ ''---'' @ [CHR 0x0A]"

definition read_notes :: "env \<Rightarrow> fs \<Rightarrow> string list \<Rightarrow> error + nat list" where
  "read_notes env fs paths = Inr (joinWith (units separator) (map (readEntry env fs) paths))"

text \<open>Lines 314-347: the handler returns the file system it leaves and either the
  success text or the wrapped error.\<close>

definition write_note ::
    "env \<Rightarrow> fs \<Rightarrow> string \<Rightarrow> nat list \<Rightarrow> bool \<Rightarrow> fs \<times> (error + string)" where
  "write_note env fs notePath content createIfNotExists =
     (let fullPath = path_join [vaultDir env, notePath] in
      case validate env fs fullPath of
        Inl e \<Rightarrow> (fs, Inl (WriteFailed e))
      | Inr validPath \<Rightarrow>
          let directory = path_dirname validPath in
          (case fs_mkdir_recursive env fs directory of
             (fs1, Some e) \<Rightarrow> (fs1, Inl (WriteFailed (FsError e ''mkdir'' directory)))
           | (fs1, None) \<Rightarrow>
               let fileExists = (fs_access env fs1 validPath = Inr ()) in
               if \<not> fileExists \<and> \<not> createIfNotExists
               then (fs1, Inl (WriteFailed (FileMissing notePath)))
               else
                 (case fs_writeFile env fs1 validPath content of
                    Inl e \<Rightarrow> (fs1, Inl (WriteFailed (FsError e ''open'' validPath)))
                  | Inr fs2 \<Rightarrow>
                      (fs2, Inr (''Successfully ''
                                  @ (if fileExists then ''updated'' else ''created'')
                                  @ '' note: '' @ notePath)))))"

text \<open>Lines 352-358: an exception that reaches the tool boundary becomes an error reply.\<close>

datatype reply = Reply "nat list" | ErrorReply "nat list"

definition toolReply :: "error + nat list \<Rightarrow> reply" where
  "toolReply r =
     (case r of Inr text \<Rightarrow> Reply text | Inl e \<Rightarrow> ErrorReply (units (''Error: '' @ message e)))"

section \<open>An example vault\<close>

text \<open>
  A small file system for the examples: the vault \<^verbatim>\<open>/vault\<close> with one note, a symbolic
  link in the vault that points at \<^verbatim>\<open>/etc/passwd\<close>, and a sibling directory
  \<^verbatim>\<open>/vault2\<close> whose name extends the vault's name.
\<close>

definition fs0 :: fs where
  "fs0 = [[] \<mapsto> Dir,
          [''vault''] \<mapsto> Dir,
          [''vault'', ''note.md''] \<mapsto> File (bytesOf ''hello''),
          [''vault'', ''link''] \<mapsto> Link ''/etc/passwd'',
          [''etc''] \<mapsto> Dir,
          [''etc'', ''passwd''] \<mapsto> File (bytesOf ''root''),
          [''vault2''] \<mapsto> Dir,
          [''vault2'', ''x''] \<mapsto> File (bytesOf ''secret'')]"

definition env0 :: env where
  "env0 = startup ''/home/u'' ''/home/u'' ''/vault''"

section \<open>The matching policy in the words of the specification\<close>

text \<open>
  The three strategies of the search, each as a predicate of its own, written from the
  specification and not from the program. The first is literal substring containment
  after case folding.
\<close>

definition substringRule :: "string \<Rightarrow> string \<Rightarrow> bool" where
  "substringRule query name = sublist (toLowerCase query) (toLowerCase name)"

text \<open>The second: the pattern that has \<^verbatim>\<open>.*\<close> in the place of every star is what is left
  when the query is cut at its stars and the pieces are joined by \<^verbatim>\<open>.*\<close>. It is compiled
  ignoring case and tested against the name; a pattern that does not compile matches
  nothing.\<close>

definition starPattern :: "string \<Rightarrow> string" where
  "starPattern query = joinWith ''.*'' (splitOn (CHR ''*'') query)"

definition wildcardRule :: "regexp \<Rightarrow> string \<Rightarrow> string \<Rightarrow> bool" where
  "wildcardRule re query name =
     (case re (starPattern query) of None \<Rightarrow> False | Some test \<Rightarrow> test name)"

text \<open>The words of a string: its maximal runs of characters that are not white space.\<close>

function wordsOf :: "string \<Rightarrow> string list" where
  "wordsOf [] = []"
| "wordsOf (c # cs) =
     (if isSpace c then wordsOf cs
      else (c # takeWhile (\<lambda>x. \<not> isSpace x) cs) # wordsOf (dropWhile (\<lambda>x. \<not> isSpace x) cs))"
  by pat_completeness auto
termination
  by (relation "measure length") (auto simp: length_dropWhile_le less_Suc_eq_le)

text \<open>The third, as the specification states it: the keywords are the words of the
  query, and the case-folded name contains one of them.\<close>

definition statedKeywordRule :: "string \<Rightarrow> string \<Rightarrow> bool" where
  "statedKeywordRule query name = (\<exists>k \<in> set (wordsOf query). sublist k (toLowerCase name))"

definition statedPolicy :: "regexp \<Rightarrow> string \<Rightarrow> string \<Rightarrow> bool" where
  "statedPolicy re query name =
     (substringRule query name \<or> wildcardRule re query name \<or> statedKeywordRule query name)"

text \<open>The third with the keywords taken from the case-folded query.\<close>

definition keywordRule :: "string \<Rightarrow> string \<Rightarrow> bool" where
  "keywordRule query name =
     (\<exists>k \<in> set (wordsOf (toLowerCase query)). sublist k (toLowerCase name))"

text \<open>The number a decimal numeral stands for.\<close>

definition decimalValue :: "string \<Rightarrow> nat" where
  "decimalValue s = foldl (\<lambda>a c. 10 * a + (of_char c - 48)) 0 s"

section \<open>A regular expression engine for the examples\<close>

text \<open>
  The theorems about the search hold for every value of the parameter \<open>re\<close>; only the
  examples need an instance. \<open>re0\<close> is JavaScript's engine on a fragment of its
  patterns: those made of plain characters, the dot (any character but a line
  terminator) and the star after one of them, matched anywhere in the name, ignoring
  case; a star with nothing to repeat is a syntax error, as in JavaScript. A pattern with
  any other metacharacter is outside the fragment and \<open>re0\<close> rejects it, which is right
  for the one such pattern of the examples, the unmatched parenthesis. Every pattern of
  the examples lies in the fragment or is that one.
\<close>

datatype sym = Plain char | Dot | Star | Meta

definition classify :: "char \<Rightarrow> sym" where
  "classify c =
     (if c = CHR ''.'' then Dot
      else if c = CHR ''*'' then Star
      else if c \<in> {CHR 0x5C, CHR ''^'', CHR ''$'', CHR ''|'', CHR ''?'', CHR ''+'',
                     CHR ''('', CHR '')'', CHR ''['', CHR '']'', CHR ''{'', CHR ''}''} then Meta
      else Plain c)"

datatype atom = Ch char | AnyChar

datatype tok = One atom | Many atom

fun parse :: "sym list \<Rightarrow> tok list option" where
  "parse [] = Some []"
| "parse (Meta # r) = None"
| "parse (Star # r) = None"
| "parse (Plain c # Star # r) = map_option ((#) (Many (Ch c))) (parse r)"
| "parse (Plain c # r) = map_option ((#) (One (Ch c))) (parse r)"
| "parse (Dot # Star # r) = map_option ((#) (Many AnyChar)) (parse r)"
| "parse (Dot # r) = map_option ((#) (One AnyChar)) (parse r)"

definition atomOk :: "atom \<Rightarrow> char \<Rightarrow> bool" where
  "atomOk a x =
     (case a of
        Ch c \<Rightarrow> lowerChar c = lowerChar x
      | AnyChar \<Rightarrow> x \<noteq> CHR 0x0A \<and> x \<noteq> CHR 0x0D)"

fun matchHere :: "tok list \<Rightarrow> string \<Rightarrow> bool" where
  "matchHere [] s = True"
| "matchHere (One a # ts) [] = False"
| "matchHere (One a # ts) (x # xs) = (atomOk a x \<and> matchHere ts xs)"
| "matchHere (Many a # ts) [] = matchHere ts []"
| "matchHere (Many a # ts) (x # xs) =
     (matchHere ts (x # xs) \<or> (atomOk a x \<and> matchHere (Many a # ts) xs))"

fun matchAnywhere :: "tok list \<Rightarrow> string \<Rightarrow> bool" where
  "matchAnywhere ts [] = matchHere ts []"
| "matchAnywhere ts (x # xs) = (matchHere ts (x # xs) \<or> matchAnywhere ts xs)"

definition re0 :: regexp where
  "re0 source = map_option matchAnywhere (parse (map classify source))"

section \<open>Resolved locations\<close>

text \<open>
  Notions for the proofs about path resolution. A name is proper when it can stand in a
  resolved location; a location is canonical in a file system when its names are proper
  and everything strictly above it is a directory; two file systems have the same shape
  when they agree everywhere up to the contents of the files.
\<close>

definition okName :: "string \<Rightarrow> bool" where
  "okName c = (c \<noteq> [] \<and> c \<noteq> ''.'' \<and> c \<noteq> ''..'' \<and> sep \<notin> set c)"

definition canon :: "fs \<Rightarrow> string list \<Rightarrow> bool" where
  "canon fs r = ((\<forall>n < length r. fs (take n r) = Some Dir) \<and> (\<forall>c \<in> set r. okName c))"



text \<open>The containment test of \<open>validatePath\<close>, applied to a path string.\<close>

definition allowedStr :: "env \<Rightarrow> string \<Rightarrow> bool" where
  "allowedStr env s = list_ex (\<lambda>dir. startsWith (normalizePath s) dir) (vaultDirectories env)"

section \<open>Properties of the hidden-entry test\<close>

lemma hidden_any:
  "list_ex (\<lambda>part. startsWith part ''.'') (splitSep p)
   \<Longrightarrow> validatePath env fs p = ([], Inl HiddenDenied)"
  by (simp add: validatePath_def)

text \<open>
  Claim C2. Whenever some slash-delimited segment of the requested path begins with a
  dot, \<open>validatePath\<close> fails with the hidden-entry error, whose message is an access
  denial. This holds for every file system and every environment (so whether the path
  exists or lies in the vault plays no role), and the list of file system calls made is
  empty: the path is rejected before the file system is touched.
\<close>

theorem hidden_segment_denied:
  assumes "part \<in> set (splitSep requestedPath)" and "startsWith part ''.''"
  shows "validatePath env fs requestedPath = ([], Inl HiddenDenied)
         \<and> accessDenied HiddenDenied"
proof -
  have "list_ex (\<lambda>part. startsWith part ''.'') (splitSep requestedPath)"
    using assms by (auto simp: list_ex_iff)
  moreover have "accessDenied HiddenDenied"
    by code_simp
  ultimately show ?thesis
    by (simp add: hidden_any)
qed

theorem hidden_segment_denied_witness:
  "validatePath env0 fs0 ''/vault/.obsidian/app.json'' = ([], Inl HiddenDenied)
   \<and> accessDenied HiddenDenied"
  by (rule hidden_segment_denied [of "''.obsidian''"]; code_simp)

text \<open>
  Claim C10. The hidden-entry test looks at the segments of the raw requested string, so
  a path with a segment \<^verbatim>\<open>.\<close> or \<^verbatim>\<open>..\<close> is rejected with the hidden-entry message,
  for every file system and environment and before any file system call: no path with
  a \<^verbatim>\<open>..\<close> segment passes \<open>validatePath\<close>. The witness is a path that is
  over-rejected: \<^verbatim>\<open>/vault/sub/../note.md\<close> resolves lexically to the existing note
  \<^verbatim>\<open>/vault/note.md\<close> inside the vault.
\<close>

theorem dot_segments_rejected:
  assumes "seg \<in> set (splitSep requestedPath)" and "seg = ''.'' \<or> seg = ''..''"
  shows "validatePath env fs requestedPath = ([], Inl HiddenDenied)
         \<and> message HiddenDenied = ''Access denied - hidden files/directories not allowed''"
proof -
  have "startsWith seg ''.''"
    using assms(2) by (auto simp: startsWith_def)
  then have "list_ex (\<lambda>part. startsWith part ''.'') (splitSep requestedPath)"
    using assms(1) by (auto simp: list_ex_iff)
  then show ?thesis
    by (simp add: hidden_any)
qed

lemma over_rejected_example:
  "absoluteOf env0 ''/vault/sub/../note.md'' = ''/vault/note.md''
   \<and> startsWith (normalizePath ''/vault/note.md'') (vaultDir env0)
   \<and> fs_realpath env0 fs0 ''/vault/note.md'' = Inr ''/vault/note.md''"
  by code_simp

theorem dot_segments_rejected_witness:
  "validatePath env0 fs0 ''/vault/sub/../note.md'' = ([], Inl HiddenDenied)
   \<and> message HiddenDenied = ''Access denied - hidden files/directories not allowed''
   \<and> absoluteOf env0 ''/vault/sub/../note.md'' = ''/vault/note.md''
   \<and> startsWith (normalizePath ''/vault/note.md'') (vaultDir env0)
   \<and> fs_realpath env0 fs0 ''/vault/note.md'' = Inr ''/vault/note.md''"
proof -
  have "''..'' \<in> set (splitSep ''/vault/sub/../note.md'')"
    by code_simp
  then show ?thesis
    using dot_segments_rejected [of "''..''" "''/vault/sub/../note.md''" env0 fs0]
      over_rejected_example
    by simp
qed

section \<open>Properties of the containment test\<close>

text \<open>
  Claim C9. The three containment decisions of \<open>validatePath\<close> (requested absolute
  path, real path, real parent path) only ask whether the normalized string begins with
  the vault's string: for a path without hidden segments whose normalized absolute form
  is the vault string followed by any \<open>rest\<close> whatever (no slash is required at the
  boundary), an existing path whose normalized real path is again the vault string
  followed by anything is accepted, and so is a missing path whose parent's normalized
  real path is the vault string followed by anything. The witness is the vault
  \<^verbatim>\<open>/vault\<close> with the sibling directory \<^verbatim>\<open>/vault2\<close>.
\<close>

theorem containment_by_bare_prefix:
  assumes nohid: "\<not> list_ex (\<lambda>part. startsWith part ''.'') (splitSep requestedPath)"
    and req: "normalizePath (absoluteOf env requestedPath) = vaultDir env @ rest"
  shows "(fs_realpath env fs (absoluteOf env requestedPath) = Inr realPath
            \<and> normalizePath realPath = vaultDir env @ rest'
          \<longrightarrow> validate env fs requestedPath = Inr realPath)
       \<and> (fs_realpath env fs (absoluteOf env requestedPath) = Inl e
            \<and> fs_realpath env fs (path_dirname (absoluteOf env requestedPath))
                = Inr realParentPath
            \<and> normalizePath realParentPath = vaultDir env @ rest''
          \<longrightarrow> validate env fs requestedPath = Inr (absoluteOf env requestedPath))"
  using nohid req
  by (simp add: validate_def validatePath_def Let_def tryRealPath_def tryParent_def
      vaultDirectories_def startsWith_def)

theorem containment_by_bare_prefix_witness:
  "vaultDir env0 = ''/vault''
   \<and> normalizePath (absoluteOf env0 ''/vault2/x'') = vaultDir env0 @ ''2/x''
   \<and> validate env0 fs0 ''/vault2/x'' = Inr ''/vault2/x''
   \<and> normalizePath (absoluteOf env0 ''/vault2/new'') = vaultDir env0 @ ''2/new''
   \<and> validate env0 fs0 ''/vault2/new'' = Inr ''/vault2/new''"
proof -
  have a: "\<not> list_ex (\<lambda>part. startsWith part ''.'') (splitSep ''/vault2/x'')"
    and b: "normalizePath (absoluteOf env0 ''/vault2/x'') = vaultDir env0 @ ''2/x''"
    and c: "fs_realpath env0 fs0 (absoluteOf env0 ''/vault2/x'') = Inr ''/vault2/x''"
    and d: "normalizePath ''/vault2/x'' = vaultDir env0 @ ''2/x''"
    and v: "vaultDir env0 = ''/vault''"
    by code_simp+
  have a': "\<not> list_ex (\<lambda>part. startsWith part ''.'') (splitSep ''/vault2/new'')"
    and b': "normalizePath (absoluteOf env0 ''/vault2/new'') = vaultDir env0 @ ''2/new''"
    and c': "fs_realpath env0 fs0 (absoluteOf env0 ''/vault2/new'') = Inl ENOENT"
    and d': "fs_realpath env0 fs0 (path_dirname (absoluteOf env0 ''/vault2/new''))
              = Inr ''/vault2''"
    and e': "normalizePath ''/vault2'' = vaultDir env0 @ ''2''"
    and f': "absoluteOf env0 ''/vault2/new'' = ''/vault2/new''"
    by code_simp+
  have "validate env0 fs0 ''/vault2/x'' = Inr ''/vault2/x''"
    using containment_by_bare_prefix [OF a b, of fs0 "''/vault2/x''" "''2/x''"] c d
    by simp
  moreover have "validate env0 fs0 ''/vault2/new'' = Inr ''/vault2/new''"
    using containment_by_bare_prefix [OF a' b', of fs0 _ _ ENOENT "''/vault2''" "''2''"]
      c' d' e' f'
    by simp
  ultimately show ?thesis
    using b b' v by simp
qed

section \<open>A symbolic link that leaves the vault\<close>

text \<open>
  Claim C1 (evaluation at the failing input). In the example vault,
  \<^verbatim>\<open>/vault/link\<close> exists and its real path \<^verbatim>\<open>/etc/passwd\<close> is outside the vault. The
  error thrown for it inside the \<^verbatim>\<open>try\<close> block is caught by the block's own
  \<^verbatim>\<open>catch\<close>, the parent \<^verbatim>\<open>/vault\<close> passes, and \<open>validatePath\<close> returns the unresolved
  path; \<^verbatim>\<open>read_notes\<close> then reads the file outside the vault through the link.
\<close>

theorem symlink_escape_accepted:
  "fs_realpath env0 fs0 ''/vault/link'' = Inr ''/etc/passwd''
   \<and> \<not> list_ex (\<lambda>dir. startsWith (normalizePath ''/etc/passwd'') dir) (vaultDirectories env0)
   \<and> validatePath env0 fs0 ''/vault/link''
       = ([Realpath ''/vault/link'', Realpath ''/vault''], Inr ''/vault/link'')
   \<and> readNote env0 fs0 ''link'' = Inr (units ''root'')"
  by code_simp

section \<open>Properties of the search\<close>

lemma showNat_decimal: "decimalValue (showNat n) = n"
proof (induction n rule: showNat.induct)
  case (1 n)
  show ?case
  proof (cases "n < 10")
    case True
    then show ?thesis
      by (subst showNat.simps) (simp add: decimalValue_def digitChar_def)
  next
    case False
    then have "decimalValue (showNat (n div 10)) = n div 10"
      using 1 by simp
    moreover have "n mod 10 < 10" by simp
    ultimately show ?thesis
      using False
      by (subst showNat.simps) (simp add: decimalValue_def digitChar_def)
  qed
qed

lemma wordsOf_word_space:
  assumes "\<forall>x \<in> set w. \<not> isSpace x" and "isSpace c"
  shows "wordsOf (w @ c # cs) = (if w = [] then [] else [w]) @ wordsOf cs"
proof (cases w)
  case Nil
  then show ?thesis using assms by simp
next
  case (Cons x w')
  have "takeWhile (\<lambda>x. \<not> isSpace x) (w' @ c # cs) = w'"
    using assms Cons by (simp add: takeWhile_append2)
  moreover have "dropWhile (\<lambda>x. \<not> isSpace x) (w' @ c # cs) = c # cs"
    using assms Cons by (simp add: dropWhile_append2)
  ultimately show ?thesis
    using assms Cons by simp
qed

lemma wordsOf_word:
  assumes "\<forall>x \<in> set w. \<not> isSpace x"
  shows "wordsOf w = (if w = [] then [] else [w])"
proof (cases w)
  case Nil
  then show ?thesis by simp
next
  case (Cons x w')
  have "takeWhile (\<lambda>x. \<not> isSpace x) w' = w'" "dropWhile (\<lambda>x. \<not> isSpace x) w' = []"
    using assms Cons by auto
  then have "wordsOf (x # w') = [x # w']"
    using assms Cons by (simp del: dropWhile_eq_Nil_conv)
  then show ?thesis
    using Cons by simp
qed

lemma splitWs_words:
  "\<forall>x \<in> set acc. \<not> isSpace x \<Longrightarrow> (b \<longrightarrow> acc = [])
   \<Longrightarrow> filter (\<lambda>k. k \<noteq> []) (splitWs acc b s) = wordsOf (rev acc @ s)"
proof (induction acc b s rule: splitWs.induct)
  case (1 acc inRun)
  then show ?case
    using wordsOf_word [of "rev acc"] by simp
next
  case (2 acc inRun c cs)
  show ?case
  proof (cases "isSpace c")
    case True
    then show ?thesis
      using 2 wordsOf_word_space [of "rev acc" c cs] by auto
  next
    case False
    then show ?thesis
      using 2 by simp
  qed
qed

lemma keywordsOf_words: "keywordsOf query = wordsOf (toLowerCase query)"
  using splitWs_words [of "[]" False "toLowerCase query"] by (simp add: keywordsOf_def)

lemma splitOn_Cons_ex: "\<exists>s ss. splitOn d x = s # ss"
  by (induction x) (auto split: list.splits)

lemma replaceStars_starPattern: "replaceStars query = starPattern query"
proof (induction query)
  case Nil
  show ?case by (simp add: replaceStars_def starPattern_def)
next
  case (Cons c q)
  obtain s ss where s: "splitOn (CHR ''*'') q = s # ss"
    using splitOn_Cons_ex by blast
  show ?case
    using Cons s by (cases ss) (auto simp: replaceStars_def starPattern_def)
qed

lemma entryMatches_rules:
  "entryMatches re query name
     = (substringRule query name \<or> wildcardRule re query name \<or> keywordRule query name)"
  by (auto simp: entryMatches_def substringRule_def wildcardRule_def keywordRule_def Let_def
      str_includes_def list_ex_iff keywordsOf_words replaceStars_starPattern
      split: option.splits)

lemma splitWs_no_space:
  "\<forall>c \<in> set acc. \<not> isSpace c \<Longrightarrow> k \<in> set (splitWs acc b s) \<Longrightarrow> c \<in> set k \<Longrightarrow> \<not> isSpace c"
  by (induction acc b s rule: splitWs.induct) (auto split: if_splits)

lemma splitWs_concat:
  "(b \<longrightarrow> acc = []) \<Longrightarrow> concat (splitWs acc b s) = rev acc @ filter (\<lambda>c. \<not> isSpace c) s"
  by (induction acc b s rule: splitWs.induct) auto

lemma concat_filter_nonempty: "concat (filter (\<lambda>k. k \<noteq> []) xs) = concat xs"
  by (induction xs) auto

lemma keywordsOf_pieces:
  "(\<forall>k \<in> set (keywordsOf query). k \<noteq> [] \<and> \<not> list_ex isSpace k)
   \<and> concat (keywordsOf query) = filter (\<lambda>c. \<not> isSpace c) (toLowerCase query)"
proof -
  have "\<not> isSpace c" if "k \<in> set (splitWs [] False (toLowerCase query))" "c \<in> set k" for k c
    using splitWs_no_space [of "[]" k False "toLowerCase query" c] that by simp
  then show ?thesis
    by (auto simp: keywordsOf_def list_ex_iff concat_filter_nonempty splitWs_concat)
qed

lemma searchEntry_cases:
  "searchEntry re env fs query basePath currentPath name =
     (if (\<exists>v. validate env fs (path_join [currentPath, name]) = Inr v)
          \<and> endsWith name ''.md'' \<and> entryMatches re query name
      then [replaceFirst (path_join [currentPath, name]) basePath []] else [])"
  by (auto simp: searchEntry_def Let_def split: sum.splits)

lemma search_bounded:
  "length (search re env fs query basePath currentPath entries) \<le> sum_list (map entryCount entries)"
  "length (searchStep re env fs query basePath currentPath entry) \<le> entryCount entry"
proof (induction re env fs query basePath currentPath entries
      and re env fs query basePath currentPath entry rule: search_searchStep.induct)
  case (1 re env fs query basePath currentPath)
  show ?case by simp
next
  case (2 re env fs query basePath currentPath entry entries)
  then show ?case by simp
next
  case (3 re env fs query basePath currentPath name isDirectory below)
  show ?case
  proof (cases "validate env fs (path_join [currentPath, name])")
    case (Inl e)
    then show ?thesis by simp
  next
    case (Inr ok)
    have "isDirectory \<Longrightarrow>
          length (search re env fs query basePath (path_join [currentPath, name]) below)
            \<le> sum_list (map entryCount below)"
      using 3 [OF refl Inr] by simp
    then show ?thesis
      using Inr by (auto simp: Let_def)
  qed
qed

lemma searchStep_entry:
  "searchStep re env fs query basePath currentPath (Dirent name isDirectory below)
     = searchEntry re env fs query basePath currentPath name
       @ (if isDirectory \<and> (\<exists>v. validate env fs (path_join [currentPath, name]) = Inr v)
          then search re env fs query basePath (path_join [currentPath, name]) below else [])"
  by (simp add: searchEntry_def Let_def split: sum.splits)

text \<open>
  Claim C4 (as amended). For every query, entry name and regular expression engine, the
  value of \<^verbatim>\<open>matches\<close> is the disjunction of three strategies, tried in this order:
  the case-folded name contains the case-folded query; the pattern with \<^verbatim>\<open>.*\<close> in the
  place of every star of the query (the program's replacement produces exactly that
  pattern), compiled ignoring case, matches the name; some keyword occurs in the
  case-folded name. A pattern that does not compile counts as no match and the other two
  strategies still decide. The keywords are the words (the maximal runs without white
  space) of the case-folded query, not of the query itself: line 159 folds the query
  before it splits it. One directory entry adds at most one result of its own: its path
  with the base path removed when it passes validation, ends in \<^verbatim>\<open>.md\<close> and matches,
  and nothing otherwise; after it come the results of the entries below it. So the walk
  returns no more results than it visits entries.
\<close>

theorem matching_policy:
  "entryMatches re query name
     = (substringRule query name \<or> wildcardRule re query name \<or> keywordRule query name)
   \<and> replaceStars query = starPattern query
   \<and> (re (starPattern query) = None
        \<longrightarrow> entryMatches re query name = (substringRule query name \<or> keywordRule query name))
   \<and> (\<forall>k \<in> set (keywordsOf query). k \<noteq> [] \<and> \<not> list_ex isSpace k)
   \<and> keywordsOf query = wordsOf (toLowerCase query)
   \<and> searchEntry re env fs query basePath currentPath name =
       (if (\<exists>v. validate env fs (path_join [currentPath, name]) = Inr v)
            \<and> endsWith name ''.md'' \<and> entryMatches re query name
        then [replaceFirst (path_join [currentPath, name]) basePath []] else [])
   \<and> length (searchEntry re env fs query basePath currentPath name) \<le> 1
   \<and> searchStep re env fs query basePath currentPath (Dirent name isDirectory below)
       = searchEntry re env fs query basePath currentPath name
         @ (if isDirectory \<and> (\<exists>v. validate env fs (path_join [currentPath, name]) = Inr v)
            then search re env fs query basePath (path_join [currentPath, name]) below else [])
   \<and> length (search re env fs query basePath currentPath entries)
       \<le> sum_list (map entryCount entries)"
proof -
  have a: "entryMatches re query name
     = (substringRule query name \<or> wildcardRule re query name \<or> keywordRule query name)"
    by (rule entryMatches_rules)
  have "re (starPattern query) = None \<Longrightarrow> \<not> wildcardRule re query name"
    by (simp add: wildcardRule_def)
  then have b: "re (starPattern query) = None
        \<longrightarrow> entryMatches re query name = (substringRule query name \<or> keywordRule query name)"
    using a by simp
  have c: "length (searchEntry re env fs query basePath currentPath name) \<le> 1"
    by (simp add: searchEntry_cases)
  show ?thesis
    by (intro conjI a b c replaceStars_starPattern conjunct1 [OF keywordsOf_pieces]
        keywordsOf_words searchEntry_cases searchStep_entry search_bounded(1))
qed

text \<open>The claim as stated takes the keywords from the query itself. For the query
  \<^verbatim>\<open>Foo Bar\<close> and the entry \<^verbatim>\<open>foo.md\<close> no strategy of the stated policy succeeds (the
  name contains neither \<^verbatim>\<open>foo bar\<close> nor, as they are written, \<^verbatim>\<open>Foo\<close> or \<^verbatim>\<open>Bar\<close>,
  and the pattern \<^verbatim>\<open>Foo Bar\<close> does not match it), but the program matches the entry:
  its keywords are \<^verbatim>\<open>foo\<close> and \<^verbatim>\<open>bar\<close>.\<close>

theorem keywords_of_folded_query:
  "entryMatches re0 ''Foo Bar'' ''foo.md''
   \<and> \<not> statedPolicy re0 ''Foo Bar'' ''foo.md''
   \<and> \<not> substringRule ''Foo Bar'' ''foo.md''
   \<and> \<not> wildcardRule re0 ''Foo Bar'' ''foo.md''
   \<and> \<not> statedKeywordRule ''Foo Bar'' ''foo.md''
   \<and> wordsOf ''Foo Bar'' = [''Foo'', ''Bar'']
   \<and> keywordsOf ''Foo Bar'' = [''foo'', ''bar'']"
  by code_simp

text \<open>The query \<^verbatim>\<open>a*c\<close> of the specification over \<^verbatim>\<open>abc.md\<close>, \<^verbatim>\<open>axxxc.md\<close> and
  \<^verbatim>\<open>ab.md\<close>; the query \<^verbatim>\<open>x*c\<close>, whose pattern \<^verbatim>\<open>x.*c\<close> does not match \<^verbatim>\<open>abc.md\<close>
  although the query taken as a pattern itself would; a query whose pattern does not
  compile and whose keyword decides; and the query \<^verbatim>\<open>Foo Bar\<close>.\<close>

theorem matching_policy_witness:
  "\<not> substringRule ''a*c'' ''axxxc.md'' \<and> wildcardRule re0 ''a*c'' ''axxxc.md''
   \<and> entryMatches re0 ''a*c'' ''axxxc.md''
   \<and> entryMatches re0 ''a*c'' ''abc.md'' \<and> \<not> entryMatches re0 ''a*c'' ''ab.md''
   \<and> replaceStars ''x*c'' = ''x.*c''
   \<and> \<not> entryMatches re0 ''x*c'' ''abc.md''
   \<and> map_option (\<lambda>test. test ''abc.md'') (re0 ''x*c'') = Some True
   \<and> re0 (replaceStars ''(x Foo'') = None
   \<and> keywordsOf ''(x Foo'' = [''(x'', ''foo'']
   \<and> entryMatches re0 ''(x Foo'' ''foo.md''
   \<and> entryMatches re0 ''Foo Bar'' ''foo.md''
   \<and> searchEntry re0 env0 fs0 ''a*c'' ''/vault'' ''/vault'' ''axxxc.md'' = [''/axxxc.md'']
   \<and> search re0 env0 fs0 ''a*c'' ''/vault'' ''/vault''
         [Dirent ''abc.md'' False [], Dirent ''axxxc.md'' False [], Dirent ''ab.md'' False []]
       = [''/abc.md'', ''/axxxc.md'']"
proof -
  note t = matching_policy [of re0 "''a*c''" "''axxxc.md''" env0 fs0 "''/vault''" "''/vault''"
      False "[]" "[]"]
  note u = matching_policy [of re0 "''(x Foo''" "''foo.md''" env0 fs0 "''/vault''" "''/vault''"
      False "[]" "[]"]
  note x = matching_policy [of re0 "''x*c''" "''abc.md''" env0 fs0 "''/vault''" "''/vault''"
      False "[]" "[]"]
  note f = matching_policy [of re0 "''Foo Bar''" "''foo.md''" env0 fs0 "''/vault''" "''/vault''"
      False "[]" "[]"]
  note t1 = t [THEN conjunct1]
  note t6 = t [THEN conjunct2, THEN conjunct2, THEN conjunct2, THEN conjunct2, THEN conjunct2,
      THEN conjunct1]
  note u2 = u [THEN conjunct2, THEN conjunct1]
  note u3 = u [THEN conjunct2, THEN conjunct2, THEN conjunct1]
  note x1 = x [THEN conjunct1]
  note x2 = x [THEN conjunct2, THEN conjunct1]
  note f1 = f [THEN conjunct1]
  have a: "\<not> substringRule ''a*c'' ''axxxc.md''" "wildcardRule re0 ''a*c'' ''axxxc.md''"
    "entryMatches re0 ''a*c'' ''abc.md''" "\<not> entryMatches re0 ''a*c'' ''ab.md''"
    by code_simp+
  have b: "re0 (starPattern ''(x Foo'') = None" "keywordsOf ''(x Foo'' = [''(x'', ''foo'']"
    "keywordRule ''(x Foo'' ''foo.md''"
    by code_simp+
  have c: "validate env0 fs0 (path_join [''/vault'', ''axxxc.md'']) = Inr ''/vault/axxxc.md''"
    "endsWith ''axxxc.md'' ''.md''"
    "replaceFirst (path_join [''/vault'', ''axxxc.md'']) ''/vault'' [] = ''/axxxc.md''"
    by code_simp+
  have d: "starPattern ''x*c'' = ''x.*c''" "\<not> substringRule ''x*c'' ''abc.md''"
    "\<not> wildcardRule re0 ''x*c'' ''abc.md''" "\<not> keywordRule ''x*c'' ''abc.md''"
    "map_option (\<lambda>test. test ''abc.md'') (re0 ''x*c'') = Some True"
    "keywordRule ''Foo Bar'' ''foo.md''"
    by code_simp+
  have m: "entryMatches re0 ''a*c'' ''axxxc.md''"
    using t1 a(2) by simp
  have s: "searchEntry re0 env0 fs0 ''a*c'' ''/vault'' ''/vault'' ''axxxc.md'' = [''/axxxc.md'']"
    using t6 m c by simp
  have n: "entryMatches re0 ''(x Foo'' ''foo.md''"
    using u3 b(1) b(3) by simp
  have r: "re0 (replaceStars ''(x Foo'') = None"
    using u2 b(1) by simp
  have p: "replaceStars ''x*c'' = ''x.*c''"
    using x2 d(1) by simp
  have q: "\<not> entryMatches re0 ''x*c'' ''abc.md''"
    using x1 d(2) d(3) d(4) by simp
  have k: "entryMatches re0 ''Foo Bar'' ''foo.md''"
    using f1 d(6) by simp
  have w: "search re0 env0 fs0 ''a*c'' ''/vault'' ''/vault''
         [Dirent ''abc.md'' False [], Dirent ''axxxc.md'' False [], Dirent ''ab.md'' False []]
       = [''/abc.md'', ''/axxxc.md'']"
    by code_simp
  show ?thesis
    by (intro conjI a p q d(5) r b(2) m s n k w)
qed

text \<open>
  Claim C5. A \<^verbatim>\<open>search_notes\<close> invocation that could list the vault replies with the
  text built from the collected results. Its listed part is made of the first 200
  results at most; when more than 200 were collected, the reply ends with a note whose
  number is exactly the count of the results left out (the decimal numeral printed
  stands for that count); and for no result at all the reply is the text
  \<^verbatim>\<open>No matches found\<close>.
\<close>

theorem search_reply_limit:
  "search_notes re env fs query (Inr entries)
     = Inr (searchText (search re env fs query (vaultDir env) (vaultDir env) entries))
   \<and> searchText results =
     (if results = [] then ''No matches found'' else joinWith [CHR 0x0A] (take 200 results))
     @ (if 200 < length results
        then [CHR 0x0A, CHR 0x0A] @ ''... '' @ showNat (length results - 200)
               @ '' more results not shown.''
        else [])
   \<and> length (take 200 results) \<le> 200
   \<and> decimalValue (showNat (length results - 200)) = length results - 200"
  by (simp add: search_notes_def searchNotes_def searchText_def SEARCH_LIMIT_def Let_def
      showNat_decimal)

section \<open>Properties of reading\<close>

text \<open>
  Claim C6. \<^verbatim>\<open>read_notes\<close> never fails: for every list of paths its reply is a text,
  the entries joined by the separator, which is a line feed, three hyphens and a line
  feed. There are as many entries as requested paths, and entry \<open>i\<close> belongs to path
  \<open>i\<close>: the path, a colon, a line feed, the content and a line feed when the note could
  be read, and the path with an inline \<^verbatim>\<open>Error -\<close> message when validation or reading
  failed. A failure of one path leaves the entries of the others as they are.
\<close>

theorem read_notes_one_entry_per_path:
  "\<exists>entries.
     read_notes env fs paths = Inr (joinWith (units ([CHR 0x0A] @ ''---'' @ [CHR 0x0A])) entries)
     \<and> length entries = length paths
     \<and> (\<forall>i < length paths.
          entries ! i =
            (case readNote env fs (paths ! i) of
               Inr content \<Rightarrow> units (paths ! i @ '':'' @ [CHR 0x0A]) @ content @ units [CHR 0x0A]
             | Inl e \<Rightarrow> units (paths ! i @ '': Error - '' @ message e)))"
  by (rule exI [of _ "map (readEntry env fs) paths"])
     (simp add: read_notes_def readEntry_def separator_def)

text \<open>A batch of a note of the vault, a path that escapes the vault and the empty path,
  which stands for the vault directory itself: the whole text of the reply.\<close>

theorem read_notes_one_entry_per_path_witness:
  "read_notes env0 fs0 [''/note.md'', ''../etc/passwd'', '''']
     = Inr (units (''/note.md:'' @ [CHR 0x0A] @ ''hello'' @ [CHR 0x0A]
                   @ [CHR 0x0A] @ ''---'' @ [CHR 0x0A]
                   @ ''../etc/passwd: Error - Access denied - path outside allowed directories: /etc/passwd not in /vault''
                   @ [CHR 0x0A] @ ''---'' @ [CHR 0x0A]
                   @ '': Error - EISDIR: illegal operation on a directory, read''))"
proof -
  let ?paths = "[''/note.md'', ''../etc/passwd'', '''']"
  obtain entries where e:
    "read_notes env0 fs0 ?paths = Inr (joinWith (units ([CHR 0x0A] @ ''---'' @ [CHR 0x0A])) entries)"
    "length entries = length ?paths"
    "\<forall>i < length ?paths.
          entries ! i =
            (case readNote env0 fs0 (?paths ! i) of
               Inr content \<Rightarrow> units (?paths ! i @ '':'' @ [CHR 0x0A]) @ content @ units [CHR 0x0A]
             | Inl e \<Rightarrow> units (?paths ! i @ '': Error - '' @ message e))"
    using read_notes_one_entry_per_path [of env0 fs0 ?paths]
    by blast
  have r: "readNote env0 fs0 ''/note.md'' = Inr (units ''hello'')"
    "readNote env0 fs0 ''../etc/passwd'' = Inl (OutsideDenied ''/etc/passwd'' [''/vault''])"
    "message (OutsideDenied ''/etc/passwd'' [''/vault''])
       = ''Access denied - path outside allowed directories: /etc/passwd not in /vault''"
    "readNote env0 fs0 '''' = Inl (FdError EISDIR ''read'')"
    "message (FdError EISDIR ''read'') = ''EISDIR: illegal operation on a directory, read''"
    by code_simp+
  have e0: "entries ! 0 = units (''/note.md:'' @ [CHR 0x0A]) @ units ''hello'' @ units [CHR 0x0A]"
    using e(3) r(1) by (elim allE [of _ 0]) simp
  have e1: "entries ! 1 = units ''../etc/passwd: Error - Access denied - path outside allowed directories: /etc/passwd not in /vault''"
    using e(3) r(2) r(3) by (elim allE [of _ 1]) simp
  have e2: "entries ! 2 = units '': Error - EISDIR: illegal operation on a directory, read''"
    using e(3) r(4) r(5) by (elim allE [of _ 2]) simp
  obtain x y z where xyz: "entries = [x, y, z]"
    using e(2) by (auto simp: length_Suc_conv numeral_3_eq_3)
  show ?thesis
    using e(1) e0 e1 e2 unfolding xyz by (simp add: units_def)
qed

section \<open>Path resolution lemmas\<close>

lemma splitOn_nonempty [simp]: "splitOn d s \<noteq> []"
  by (induction s) (auto split: list.splits)

lemma splitOn_sep_Cons [simp]: "splitOn d (d # s) = [] # splitOn d s"
  by (cases "splitOn d s") auto

lemma splitOn_other_Cons:
  "c \<noteq> d \<Longrightarrow> splitOn d (c # s) = (c # hd (splitOn d s)) # tl (splitOn d s)"
  by (cases "splitOn d s") auto

declare splitOn.simps(2) [simp del]

lemma splitOn_append: "splitOn d (a @ d # b) = splitOn d a @ splitOn d b"
proof (induction a)
  case Nil
  show ?case by simp
next
  case (Cons c a)
  show ?case
  proof (cases "c = d")
    case True
    then show ?thesis using Cons by simp
  next
    case False
    obtain s ss where s: "splitOn d a = s # ss"
      by (cases "splitOn d a") auto
    show ?thesis
      using False Cons s by (simp add: splitOn_other_Cons)
  qed
qed

lemma splitOn_no_sep: "c \<in> set (splitOn d s) \<Longrightarrow> d \<notin> set c"
proof (induction s arbitrary: c)
  case Nil
  then show ?case by simp
next
  case (Cons x s)
  obtain t ts where t: "splitOn d s = t # ts"
    by (cases "splitOn d s") auto
  show ?case
    using Cons t by (cases "x = d") (auto simp: splitOn_other_Cons)
qed

lemma splitOn_clean: "d \<notin> set s \<Longrightarrow> splitOn d s = [s]"
  by (induction s) (auto simp: splitOn_other_Cons)

lemma splitOn_joinWith:
  "xs \<noteq> [] \<Longrightarrow> \<forall>x \<in> set xs. d \<notin> set x \<Longrightarrow> splitOn d (joinWith [d] xs) = xs"
proof (induction "[d]" xs rule: joinWith.induct)
  case 1
  then show ?case by simp
next
  case (2 x)
  then show ?case by (simp add: splitOn_clean)
next
  case (3 x y ys)
  then show ?case
    using splitOn_append [of d x "joinWith [d] (y # ys)"] by (simp add: splitOn_clean)
qed

lemma splitSep_render:
  "\<forall>x \<in> set r. sep \<notin> set x \<Longrightarrow> splitSep (render r) = (if r = [] then [[], []] else [] # r)"
  using splitOn_joinWith [of r sep]
  by (simp add: splitSep_def render_def sep_def)





lemma walk_step_fail:
  "fs cur \<noteq> Some Dir \<Longrightarrow> \<exists>e. walk fs follow hops cur (c # cs) = Fail e"
  by (auto split: option.splits node.splits)

lemma walk_step_skip:
  "fs cur = Some Dir \<Longrightarrow> c = [] \<or> c = ''.''
   \<Longrightarrow> walk fs follow hops cur (c # cs) = walk fs follow hops cur cs"
  by auto

lemma walk_step_up:
  "fs cur = Some Dir \<Longrightarrow> c = ''..''
   \<Longrightarrow> walk fs follow hops cur (c # cs) = walk fs follow hops (butlast cur) cs"
  by auto

lemma walk_step_none:
  "fs cur = Some Dir \<Longrightarrow> c \<noteq> [] \<Longrightarrow> c \<noteq> ''.'' \<Longrightarrow> c \<noteq> ''..'' \<Longrightarrow> fs (cur @ [c]) = None
   \<Longrightarrow> walk fs follow hops cur (c # cs) =
       (if cs = [] then Missing (cur @ [c])
        else if list_all (\<lambda>x. x = []) cs then MissingDir (cur @ [c])
        else Fail ENOENT)"
  by auto

lemma walk_step_dir:
  "fs cur = Some Dir \<Longrightarrow> c \<noteq> [] \<Longrightarrow> c \<noteq> ''.'' \<Longrightarrow> c \<noteq> ''..'' \<Longrightarrow> fs (cur @ [c]) = Some Dir
   \<Longrightarrow> walk fs follow hops cur (c # cs) = walk fs follow hops (cur @ [c]) cs"
  by auto

lemma walk_step_file:
  "fs cur = Some Dir \<Longrightarrow> c \<noteq> [] \<Longrightarrow> c \<noteq> ''.'' \<Longrightarrow> c \<noteq> ''..'' \<Longrightarrow> fs (cur @ [c]) = Some (File x)
   \<Longrightarrow> walk fs follow hops cur (c # cs) = walk fs follow hops (cur @ [c]) cs"
  by auto

lemma walk_step_link:
  "fs cur = Some Dir \<Longrightarrow> c \<noteq> [] \<Longrightarrow> c \<noteq> ''.'' \<Longrightarrow> c \<noteq> ''..'' \<Longrightarrow> fs (cur @ [c]) = Some (Link t)
   \<Longrightarrow> walk fs follow hops cur (c # cs) =
       (if cs = [] \<and> \<not> follow then Found (cur @ [c])
        else if t = [] then Fail ENOENT
        else (case hops of
                0 \<Rightarrow> Fail ELOOP
              | Suc k \<Rightarrow> walk fs follow k (if isAbsolute t then [] else cur) (splitSep t @ cs)))"
  by auto

declare walk.simps(2) [simp del]

lemma walk_cases_induct
  [case_names Nil NotDir Skip Up None Dir File LinkStop LinkEmpty LinkLoop LinkFollow]:
  assumes "\<And>hops cur. P hops cur []"
    and "\<And>hops cur c cs. fs cur \<noteq> Some Dir \<Longrightarrow> P hops cur (c # cs)"
    and "\<And>hops cur c cs. fs cur = Some Dir \<Longrightarrow> c = [] \<or> c = ''.'' \<Longrightarrow> P hops cur cs
           \<Longrightarrow> P hops cur (c # cs)"
    and "\<And>hops cur c cs. fs cur = Some Dir \<Longrightarrow> c = ''..'' \<Longrightarrow> P hops (butlast cur) cs
           \<Longrightarrow> P hops cur (c # cs)"
    and "\<And>hops cur c cs. fs cur = Some Dir \<Longrightarrow> c \<noteq> [] \<Longrightarrow> c \<noteq> ''.'' \<Longrightarrow> c \<noteq> ''..''
           \<Longrightarrow> fs (cur @ [c]) = None \<Longrightarrow> P hops cur (c # cs)"
    and "\<And>hops cur c cs. fs cur = Some Dir \<Longrightarrow> c \<noteq> [] \<Longrightarrow> c \<noteq> ''.'' \<Longrightarrow> c \<noteq> ''..''
           \<Longrightarrow> fs (cur @ [c]) = Some Dir \<Longrightarrow> P hops (cur @ [c]) cs \<Longrightarrow> P hops cur (c # cs)"
    and "\<And>hops cur c cs x. fs cur = Some Dir \<Longrightarrow> c \<noteq> [] \<Longrightarrow> c \<noteq> ''.'' \<Longrightarrow> c \<noteq> ''..''
           \<Longrightarrow> fs (cur @ [c]) = Some (File x) \<Longrightarrow> P hops (cur @ [c]) cs
           \<Longrightarrow> P hops cur (c # cs)"
    and "\<And>hops cur c cs t. fs cur = Some Dir \<Longrightarrow> c \<noteq> [] \<Longrightarrow> c \<noteq> ''.'' \<Longrightarrow> c \<noteq> ''..''
           \<Longrightarrow> fs (cur @ [c]) = Some (Link t) \<Longrightarrow> cs = [] \<and> \<not> follow \<Longrightarrow> P hops cur (c # cs)"
    and "\<And>hops cur c cs t. fs cur = Some Dir \<Longrightarrow> c \<noteq> [] \<Longrightarrow> c \<noteq> ''.'' \<Longrightarrow> c \<noteq> ''..''
           \<Longrightarrow> fs (cur @ [c]) = Some (Link t) \<Longrightarrow> \<not> (cs = [] \<and> \<not> follow) \<Longrightarrow> t = []
           \<Longrightarrow> P hops cur (c # cs)"
    and "\<And>cur c cs t. fs cur = Some Dir \<Longrightarrow> c \<noteq> [] \<Longrightarrow> c \<noteq> ''.'' \<Longrightarrow> c \<noteq> ''..''
           \<Longrightarrow> fs (cur @ [c]) = Some (Link t) \<Longrightarrow> \<not> (cs = [] \<and> \<not> follow) \<Longrightarrow> t \<noteq> []
           \<Longrightarrow> P 0 cur (c # cs)"
    and "\<And>k cur c cs t. fs cur = Some Dir \<Longrightarrow> c \<noteq> [] \<Longrightarrow> c \<noteq> ''.'' \<Longrightarrow> c \<noteq> ''..''
           \<Longrightarrow> fs (cur @ [c]) = Some (Link t) \<Longrightarrow> \<not> (cs = [] \<and> \<not> follow) \<Longrightarrow> t \<noteq> []
           \<Longrightarrow> P k (if isAbsolute t then [] else cur) (splitSep t @ cs)
           \<Longrightarrow> P (Suc k) cur (c # cs)"
  shows "P hops cur cs"
proof -
  have "f = fs \<Longrightarrow> fo = follow \<Longrightarrow> P hops cur cs" for f fo
proof (induction f fo hops cur cs rule: walk.induct)
  case (1 f fo hops cur)
  show ?case by (rule assms(1))
next
  case (2 f fo hops cur c cs)
  note [simp] = \<open>f = fs\<close> \<open>fo = follow\<close>
  show ?case
  proof (cases "fs cur = Some Dir")
    case False
    then show ?thesis by (rule assms(2))
  next
    case d: True
    show ?thesis
    proof (cases "c = [] \<or> c = ''.''")
      case True
      then show ?thesis using d 2(1) assms(3) by simp
    next
      case n1: False
      show ?thesis
      proof (cases "c = ''..''")
        case True
        then show ?thesis using d n1 2(2) assms(4) by simp
      next
        case n2: False
        show ?thesis
        proof (cases "fs (cur @ [c])")
          case None
          then show ?thesis using d n1 n2 assms(5) by blast
        next
          case (Some n)
          show ?thesis
          proof (cases n)
            case Dir
            then show ?thesis using d n1 n2 Some 2(3) assms(6) by simp
          next
            case (File x)
            then show ?thesis using d n1 n2 Some 2(4) assms(7) by simp
          next
            case (Link t)
            show ?thesis
            proof (cases "cs = [] \<and> \<not> follow")
              case True
              then show ?thesis using d n1 n2 Some Link assms(8) by blast
            next
              case nf: False
              show ?thesis
              proof (cases "t = []")
                case True
                then show ?thesis using d n1 n2 Some Link nf assms(9) by blast
              next
                case ne: False
                show ?thesis
                proof (cases hops)
                  case 0
                  then show ?thesis using d n1 n2 Some Link nf ne assms(10) by blast
                next
                  case (Suc k)
                  then show ?thesis
                    using d n1 n2 Some Link nf ne 2(5) [of Dir n t k] assms(11) [of cur c t cs k]
                    by simp
                qed
              qed
            qed
          qed
        qed
      qed
    qed
  qed
qed
  then show ?thesis by simp
qed


lemma walk_nofollow:
  "walk fs True hops cur cs = Found r \<Longrightarrow> \<exists>r'. walk fs False hops cur cs = Found r'"
proof (induction hops cur cs rule: walk_cases_induct [where fs = fs and follow = True])
  case (Nil hops cur)
  then show ?case by (auto split: option.splits)
next
  case (NotDir hops cur c cs)
  then show ?case
    using walk_step_fail [of fs cur True hops c cs] by auto
next
  case (Skip hops cur c cs)
  then show ?case by (simp add: walk_step_skip)
next
  case (Up hops cur c cs)
  then show ?case by (simp add: walk_step_up)
next
  case (None hops cur c cs)
  then show ?case by (simp add: walk_step_none split: if_splits)
next
  case (Dir hops cur c cs)
  then show ?case by (simp add: walk_step_dir)
next
  case (File hops cur c cs x)
  then show ?case by (simp add: walk_step_file)
next
  case (LinkStop hops cur c cs t)
  then show ?case by simp
next
  case (LinkEmpty hops cur c cs t)
  have "walk fs True hops cur (c # cs) = Fail ENOENT"
    using LinkEmpty walk_step_link [of fs cur c t True hops cs] by auto
  then show ?case
    using LinkEmpty by simp
next
  case (LinkLoop cur c cs t)
  have "walk fs True 0 cur (c # cs) = Fail ELOOP"
    using LinkLoop walk_step_link [of fs cur c t True 0 cs] by auto
  then show ?case
    using LinkLoop by simp
next
  case (LinkFollow k cur c cs t)
  have a: "walk fs True (Suc k) cur (c # cs)
            = walk fs True k (if isAbsolute t then [] else cur) (splitSep t @ cs)"
    using LinkFollow walk_step_link [of fs cur c t True "Suc k" cs] by auto
  show ?case
  proof (cases "cs = []")
    case True
    have "walk fs False (Suc k) cur (c # cs) = Found (cur @ [c])"
      using LinkFollow True walk_step_link [of fs cur c t False "Suc k" cs] by auto
    then show ?thesis by blast
  next
    case False
    have "walk fs False (Suc k) cur (c # cs)
            = walk fs False k (if isAbsolute t then [] else cur) (splitSep t @ cs)"
      using LinkFollow False walk_step_link [of fs cur c t False "Suc k" cs] by auto
    then show ?thesis
      using LinkFollow a by simp
  qed
qed

lemma canon_Nil [simp]: "canon fs []"
  by (simp add: canon_def)

lemma canon_snoc: "canon fs cur \<Longrightarrow> fs cur = Some Dir \<Longrightarrow> okName c \<Longrightarrow> canon fs (cur @ [c])"
  by (auto simp: canon_def less_Suc_eq take_Suc_conv_app_nth nth_append)

lemma canon_butlast: "canon fs cur \<Longrightarrow> canon fs (butlast cur)"
  by (auto simp: canon_def take_butlast dest: in_set_butlastD)

lemma canon_root: "canon fs cur \<Longrightarrow> fs cur = Some Dir \<Longrightarrow> fs [] = Some Dir"
  by (cases cur) (auto simp: canon_def)

lemma canon_butlast_dir: "canon fs cur \<Longrightarrow> fs cur = Some Dir \<Longrightarrow> fs (butlast cur) = Some Dir"
proof (cases "cur = []")
  case True
  then show "fs cur = Some Dir \<Longrightarrow> fs (butlast cur) = Some Dir" by simp
next
  case False
  assume "canon fs cur"
  then have "fs (take (length cur - 1) cur) = Some Dir"
    using False by (simp add: canon_def)
  then show "fs (butlast cur) = Some Dir"
    by (simp add: butlast_conv_take)
qed

lemma walk_canon:
  "canon fs cur \<Longrightarrow> \<forall>t. fs cur \<noteq> Some (Link t) \<Longrightarrow> \<forall>c \<in> set cs. sep \<notin> set c
   \<Longrightarrow> walk fs follow hops cur cs = Found r
   \<Longrightarrow> canon fs r \<and> fs r \<noteq> None \<and> (follow \<longrightarrow> (\<forall>t. fs r \<noteq> Some (Link t)))"
proof (induction hops cur cs rule: walk_cases_induct [where fs = fs and follow = follow])
  case (Nil hops cur)
  then show ?case by (auto split: option.splits)
next
  case (NotDir hops cur c cs)
  then show ?case
    using walk_step_fail [of fs cur follow hops c cs] by auto
next
  case (Skip hops cur c cs)
  then show ?case by (simp add: walk_step_skip)
next
  case (Up hops cur c cs)
  then show ?case
    using canon_butlast [of fs cur] canon_butlast_dir [of fs cur] by (simp add: walk_step_up)
next
  case (None hops cur c cs)
  then show ?case by (simp add: walk_step_none split: if_splits)
next
  case (Dir hops cur c cs)
  then show ?case
    using canon_snoc [of fs cur c] by (simp add: walk_step_dir okName_def)
next
  case (File hops cur c cs x)
  then show ?case
    using canon_snoc [of fs cur c] by (simp add: walk_step_file okName_def)
next
  case (LinkStop hops cur c cs t)
  have "walk fs follow hops cur (c # cs) = Found (cur @ [c])"
    using LinkStop walk_step_link [of fs cur c t follow hops cs] by simp
  then show ?case
    using LinkStop canon_snoc [of fs cur c] by (auto simp: okName_def)
next
  case (LinkEmpty hops cur c cs t)
  have "walk fs follow hops cur (c # cs) = Fail ENOENT"
    using LinkEmpty walk_step_link [of fs cur c t follow hops cs] by auto
  then show ?case
    using LinkEmpty by simp
next
  case (LinkLoop cur c cs t)
  have "walk fs follow 0 cur (c # cs) = Fail ELOOP"
    using LinkLoop walk_step_link [of fs cur c t follow 0 cs] by auto
  then show ?case
    using LinkLoop by simp
next
  case (LinkFollow k cur c cs t)
  have a: "walk fs follow (Suc k) cur (c # cs)
            = walk fs follow k (if isAbsolute t then [] else cur) (splitSep t @ cs)"
    using LinkFollow walk_step_link [of fs cur c t follow "Suc k" cs] by auto
  have "fs [] = Some Dir"
    using LinkFollow canon_root by blast
  moreover have "\<forall>c \<in> set (splitSep t @ cs). sep \<notin> set c"
    using LinkFollow.prems(3) splitOn_no_sep [of _ sep t] by (auto simp: splitSep_def)
  ultimately show ?case
    using LinkFollow a by auto
qed

lemma canon_prefix_dir:
  "canon fs (pre @ c # cs) \<Longrightarrow> fs pre = Some Dir \<and> okName c"
proof -
  assume a: "canon fs (pre @ c # cs)"
  then have "fs (take (length pre) (pre @ c # cs)) = Some Dir"
    unfolding canon_def by (metis length_append less_add_same_cancel1 length_greater_0_conv list.discI)
  then show ?thesis
    using a by (simp add: canon_def)
qed

lemma walk_canonical_path:
  "canon fs (pre @ suf) \<Longrightarrow> fs (pre @ suf) = Some n \<Longrightarrow> (follow \<longrightarrow> (\<forall>t. n \<noteq> Link t))
   \<Longrightarrow> walk fs follow hops pre suf = Found (pre @ suf)"
proof (induction suf arbitrary: pre)
  case Nil
  then show ?case by simp
next
  case (Cons c cs)
  have d: "fs pre = Some Dir" and ok: "okName c"
    using canon_prefix_dir [OF Cons.prems(1)] by auto
  have n: "c \<noteq> []" "c \<noteq> ''.''" "c \<noteq> ''..''"
    using ok by (auto simp: okName_def)
  have ih: "walk fs follow hops (pre @ [c]) cs = Found (pre @ c # cs)"
    using Cons.IH [of "pre @ [c]"] Cons.prems by simp
  show ?case
  proof (cases "cs = []")
    case True
    show ?thesis
    proof (cases n)
      case Dir
      then show ?thesis
        using Cons.prems True d n ih by (simp add: walk_step_dir)
    next
      case (File x)
      then show ?thesis
        using Cons.prems True d n ih by (simp add: walk_step_file)
    next
      case (Link t)
      then have "\<not> follow"
        using Cons.prems by auto
      then show ?thesis
        using Cons.prems True d n Link walk_step_link [of fs pre c t follow hops cs] by simp
    qed
  next
    case False
    then obtain c' cs' where cs: "cs = c' # cs'"
      by (cases cs) auto
    have "fs ((pre @ [c]) @ c' # cs') = fs (pre @ c # cs)"
      using cs by simp
    then have "fs (pre @ [c]) = Some Dir"
      using canon_prefix_dir [of fs "pre @ [c]" c' cs'] Cons.prems(1) cs by simp
    then show ?thesis
      using d n ih by (simp add: walk_step_dir)
  qed
qed

lemma render_nonempty [simp]: "render r \<noteq> []"
  by (simp add: render_def)

lemma render_absolute [simp]: "isAbsolute (render r)"
  by (simp add: render_def isAbsolute_def sep_def)

lemma lookup_canonical_path:
  assumes "canon fs r" and "fs r = Some n" and "follow \<longrightarrow> (\<forall>t. n \<noteq> Link t)"
    and root: "fs [] = Some Dir"
  shows "lookupPath env fs follow (render r) = Found r"
proof -
  have ns: "\<forall>x \<in> set r. sep \<notin> set x"
    using assms(1) by (auto simp: canon_def okName_def)
  have w: "walk fs follow SYMLOOP_MAX [] r = Found r"
    using walk_canonical_path [of fs "[]" r n follow SYMLOOP_MAX] assms by simp
  show ?thesis
  proof (cases "r = []")
    case True
    then show ?thesis
      using root w by (simp add: lookupPath_def splitSep_render walk_step_skip)
  next
    case False
    then show ?thesis
      using root w ns by (simp add: lookupPath_def splitSep_render walk_step_skip)
  qed
qed

lemma lookup_found_canon:
  assumes "lookupPath env fs follow p = Found r"
  shows "canon fs r \<and> fs r \<noteq> None \<and> (follow \<longrightarrow> (\<forall>t. fs r \<noteq> Some (Link t))) \<and> fs [] = Some Dir"
proof -
  define cs where "cs = (if isAbsolute p then splitSep p else splitSep (cwd env) @ splitSep p)"
  have w: "walk fs follow SYMLOOP_MAX [] cs = Found r"
    using assms by (auto simp: lookupPath_def cs_def split: if_splits)
  have "cs \<noteq> []"
    by (simp add: cs_def splitSep_def)
  then obtain c cs' where c: "cs = c # cs'"
    by (cases cs) auto
  have root: "fs [] = Some Dir"
    using w c walk_step_fail [of fs "[]" follow SYMLOOP_MAX c cs'] by auto
  have "\<forall>c \<in> set cs. sep \<notin> set c"
    using splitOn_no_sep [of _ sep] by (auto simp: cs_def splitSep_def)
  then show ?thesis
    using walk_canon [of fs "[]" cs follow SYMLOOP_MAX r] w root by simp
qed

lemma dirname_unfold:
  assumes "p \<noteq> []"
    and "rev (dropWhile (\<lambda>c. c \<noteq> sep) (dropWhile (\<lambda>c. c = sep) (rev (tl p)))) = B"
  shows "path_dirname p =
     (if B = [] then (if hd p = sep then ''/'' else ''.'')
      else if hd p = sep \<and> length B = 1 then ''//'' else hd p # butlast B)"
  unfolding path_dirname_def Let_def using assms by (simp only: if_False)

lemma joinWith_snoc: "xs \<noteq> [] \<Longrightarrow> joinWith d (xs @ [x]) = joinWith d xs @ d @ x"
  by (induction d xs rule: joinWith.induct) auto

lemma joinWith_nonempty: "xs \<noteq> [] \<Longrightarrow> \<forall>x \<in> set xs. x \<noteq> [] \<Longrightarrow> joinWith d xs \<noteq> []"
  by (induction d xs rule: joinWith.induct) auto

lemma render_Cons: "render r = sep # joinWith ''/'' r"
  by (simp add: render_def sep_def)

lemma dirname_render:
  assumes "\<forall>c \<in> set r. okName c"
  shows "path_dirname (render r) = render (butlast r)"
proof (cases r rule: rev_cases)
  case Nil
  have "path_dirname ''/'' = ''/''"
    by code_simp
  then show ?thesis
    using Nil by (simp add: render_def)
next
  case (snoc xs x)
  have x: "x \<noteq> []" "sep \<notin> set x"
    using assms snoc by (auto simp: okName_def)
  then have hx: "hd (rev x) \<noteq> sep"
    by (metis hd_rev last_in_set)
  have dw1: "dropWhile (\<lambda>c. c = sep) (rev x @ ys) = rev x @ ys" for ys
    using x hx by (cases "rev x") auto
  have dw2: "dropWhile (\<lambda>c. c \<noteq> sep) (rev x @ ys) = dropWhile (\<lambda>c. c \<noteq> sep) ys" for ys
    using x by (intro dropWhile_append2) auto
  have ne: "render r \<noteq> []" and hd: "hd (render r) = sep" and tl: "tl (render r) = joinWith ''/'' r"
    by (simp_all add: render_Cons)
  show ?thesis
  proof (cases "xs = []")
    case True
    have "rev (dropWhile (\<lambda>c. c \<noteq> sep) (dropWhile (\<lambda>c. c = sep) (rev (tl (render r))))) = []"
      using dw1 [of "[]"] dw2 [of "[]"] snoc True tl by simp
    from dirname_unfold [OF ne this] show ?thesis
      using hd snoc True by (simp add: render_def)
  next
    case False
    have j: "joinWith ''/'' (xs @ [x]) = joinWith ''/'' xs @ ''/'' @ x"
      using False by (rule joinWith_snoc)
    have jne: "joinWith ''/'' xs \<noteq> []"
      using False assms snoc by (intro joinWith_nonempty) (auto simp: okName_def)
    have "rev (joinWith ''/'' (xs @ [x])) = rev x @ (sep # rev (joinWith ''/'' xs))"
      using j by (simp add: sep_def)
    then have "rev (dropWhile (\<lambda>c. c \<noteq> sep) (dropWhile (\<lambda>c. c = sep) (rev (tl (render r)))))
          = joinWith ''/'' xs @ [sep]"
      using dw1 dw2 snoc tl by simp
    from dirname_unfold [OF ne this] show ?thesis
      using hd snoc jne by (simp add: render_Cons)
  qed
qed

lemma tryRealPath_Inr:
  "tryRealPath env fs a = Inr v
   \<longleftrightarrow> (\<exists>r. lookupPath env fs True a = Found r \<and> v = render r \<and> allowedStr env (render r))"
  by (auto simp: tryRealPath_def fs_realpath_def allowedStr_def Let_def split: lookup.splits)

lemma tryParent_Inr:
  "tryParent env fs a d = Inr v
   \<longleftrightarrow> (v = a \<and> (\<exists>q. lookupPath env fs True d = Found q \<and> allowedStr env (render q)))"
  by (auto simp: tryParent_def fs_realpath_def allowedStr_def Let_def split: lookup.splits)

lemma validate_Inr:
  "validate env fs p = Inr v
   \<longleftrightarrow> (\<not> list_ex (\<lambda>part. startsWith part ''.'') (splitSep p)
        \<and> allowedStr env (absoluteOf env p)
        \<and> (tryRealPath env fs (absoluteOf env p) = Inr v
            \<or> (\<exists>e. tryRealPath env fs (absoluteOf env p) = Inl e)
               \<and> tryParent env fs (absoluteOf env p) (path_dirname (absoluteOf env p)) = Inr v))"
  by (auto simp: validate_def validatePath_def allowedStr_def Let_def split: sum.splits)

lemma lookup_parent_of_found:
  assumes "lookupPath env fs True a = Found r"
  shows "lookupPath env fs True (path_dirname (render r)) = Found (butlast r)
         \<and> fs (butlast r) = Some Dir"
proof -
  have c: "canon fs r" and root: "fs [] = Some Dir"
    using lookup_found_canon [OF assms] by auto
  have d: "fs (butlast r) = Some Dir"
  proof (cases "r = []")
    case True
    then show ?thesis using root by simp
  next
    case False
    then have "fs (take (length r - 1) r) = Some Dir"
      using c by (simp add: canon_def)
    then show ?thesis by (simp add: butlast_conv_take)
  qed
  have "path_dirname (render r) = render (butlast r)"
    using c by (intro dirname_render) (simp add: canon_def)
  then show ?thesis
    using lookup_canonical_path [of fs "butlast r" Dir True env] canon_butlast [OF c] d root
    by simp
qed

lemma validated_parent_exists:
  assumes "validate env fs p = Inr v"
  shows "\<exists>d. lookupPath env fs True (path_dirname v) = Found d"
  using assms lookup_parent_of_found [of env fs "absoluteOf env p"]
  by (auto simp: validate_Inr tryRealPath_Inr tryParent_Inr)

lemma lookup_nofollow:
  "lookupPath env fs True p = Found r \<Longrightarrow> \<exists>r'. lookupPath env fs False p = Found r'"
  using walk_nofollow by (auto simp: lookupPath_def split: if_splits)

lemma mkdir_existing:
  assumes "lookupPath env fs True d = Found q"
  shows "fs_mkdir_recursive env fs d = (fs, if fs q = Some Dir then None else Some EEXIST)"
proof -
  obtain q' where "lookupPath env fs False d = Found q'"
    using lookup_nofollow [OF assms] by blast
  then have "mkdir1 env fs d = Inl EEXIST"
    by (simp add: mkdir1_def)
  moreover have "statIsDir env fs d = (if fs q = Some Dir then None else Some EEXIST)"
    using assms by (simp add: statIsDir_def)
  ultimately show ?thesis
    unfolding fs_mkdir_recursive_def by (subst mkdirp.simps) simp
qed

lemma validated_mkdir_unchanged:
  assumes "validate env fs (path_join [vaultDir env, notePath]) = Inr validPath"
  shows "(\<exists>d. lookupPath env fs True (path_dirname validPath) = Found d)
         \<and> fst (fs_mkdir_recursive env fs (path_dirname validPath)) = fs"
proof -
  obtain d where d: "lookupPath env fs True (path_dirname validPath) = Found d"
    using validated_parent_exists [OF assms] by blast
  then show ?thesis
    using mkdir_existing [OF d] by auto
qed








lemma splitSep_Nil [simp]: "splitSep [] = [[]]"
  by (simp add: splitSep_def)





lemma path_normalize_absolute:
  "isAbsolute v \<Longrightarrow> isAbsolute (path_normalize v)"
  by (auto simp: path_normalize_def isAbsolute_def Let_def sep_def)






lemma isAbsolute_append [simp]: "isAbsolute g \<Longrightarrow> isAbsolute (g @ x)"
  by (cases g) (auto simp: isAbsolute_def)



lemma joinWith_single [simp]: "joinWith d [x] = x"
  by simp

lemma lowerChar_sep: "lowerChar sep = sep"
  by code_simp

lemma path_resolve_cwd_absolute:
  assumes "isAbsolute wd"
  shows "isAbsolute (path_resolve wd [x])"
proof -
  have "\<exists>rp. resolveArgs [wd] acc = (rp, True)" for acc
    using assms by (simp add: isAbsolute_def)
  then have "\<exists>rp. resolveArgs (rev [x] @ [wd]) [] = (rp, True)"
    by simp
  then obtain rp where r: "resolveArgs (rev [x] @ [wd]) [] = (rp, True)"
    by blast
  have "path_resolve wd [x] = ''/'' @ normalizeString False rp"
    unfolding path_resolve_def r by simp
  then show ?thesis
    by (simp add: isAbsolute_def sep_def)
qed

lemma startup_absolute:
  assumes "isAbsolute wd"
  shows "isAbsolute (vaultDir (startup home wd arg))"
proof -
  have "isAbsolute (path_normalize (path_resolve wd [expandHome home arg]))"
    using path_resolve_cwd_absolute [OF assms] by (rule path_normalize_absolute)
  then show ?thesis
    using lowerChar_sep
    by (cases "path_normalize (path_resolve wd [expandHome home arg])")
       (auto simp: startup_def normalizePath_def toLowerCase_def isAbsolute_def)
qed

lemma validation_failure_wrapped:
  "validate env fs (path_join [vaultDir env, notePath]) = Inl e
   \<Longrightarrow> write_note env fs notePath content createIfNotExists = (fs, Inl (WriteFailed e))"
  by (simp add: write_note_def Let_def)

lemma parent_missing:
  assumes "\<not> list_ex (\<lambda>part. startsWith part ''.'') (splitSep p)"
    and "allowedStr env (absoluteOf env p)"
    and "fs_realpath env fs (absoluteOf env p) = Inl e"
    and "fs_realpath env fs (path_dirname (absoluteOf env p)) = Inl e'"
  shows "validate env fs p = Inl (ParentMissing (path_dirname (absoluteOf env p)))"
  using assms
  by (simp add: validate_def validatePath_def Let_def tryRealPath_def tryParent_def allowedStr_def)

section \<open>Properties of the UTF-8 encoding\<close>

text \<open>Decoding what the encoder wrote gives the string back, up to the surrogates the
  encoder replaced. The bytes of a sequence are related to the code unit through its
  digits in base 64.\<close>

declare utf8Decode.simps(2) [simp del]











lemma isHigh_surrogate: "isHigh u \<Longrightarrow> isSurrogate u \<and> 2048 \<le> u"
  by (simp add: isHigh_def isSurrogate_def)



section \<open>Properties of writing\<close>


text \<open>
  Claim C7 (as amended). When creation is disallowed, the path is validated and the target
  does not exist, \<^verbatim>\<open>write_note\<close> fails and leaves the file system as it was. The
  failure is the wrapped \<^verbatim>\<open>File does not exist\<close> error whenever the directory of the
  validated path is a directory; when it resolves to something else, the recursive
  \<^verbatim>\<open>mkdir\<close>, which runs before the existence check, fails first and its error is the one
  reported.
\<close>

theorem write_note_missing_target:
  assumes "validate env fs (path_join [vaultDir env, notePath]) = Inr validPath"
    and "fs_access env fs validPath \<noteq> Inr ()"
  shows "\<exists>d. lookupPath env fs True (path_dirname validPath) = Found d
           \<and> write_note env fs notePath content False =
               (fs, Inl (WriteFailed
                  (if fs d = Some Dir then FileMissing notePath
                   else FsError EEXIST ''mkdir'' (path_dirname validPath))))"
proof -
  obtain d where d: "lookupPath env fs True (path_dirname validPath) = Found d"
    using validated_parent_exists [OF assms(1)] by blast
  show ?thesis
    using assms d mkdir_existing [OF d]
    by (intro exI [of _ d]) (simp add: write_note_def Let_def)
qed

text \<open>A target below a regular file: the path \<^verbatim>\<open>note.md/x\<close> passes validation (its
  parent \<^verbatim>\<open>/vault/note.md\<close> resolves), the target does not exist, and the error is the
  one of \<^verbatim>\<open>mkdir\<close>, not the not-found one.\<close>

theorem write_note_parent_is_file:
  "validate env0 fs0 (path_join [vaultDir env0, ''note.md/x'']) = Inr ''/vault/note.md/x''
   \<and> fs_access env0 fs0 ''/vault/note.md/x'' = Inl ENOTDIR
   \<and> snd (write_note env0 fs0 ''note.md/x'' (units ''c'') False)
       = Inl (WriteFailed (FsError EEXIST ''mkdir'' ''/vault/note.md''))
   \<and> snd (write_note env0 fs0 ''note.md/x'' (units ''c'') False)
       \<noteq> Inl (WriteFailed (FileMissing ''note.md/x''))"
  by code_simp

theorem write_note_missing_target_witness:
  "validate env0 fs0 (path_join [vaultDir env0, ''new.md'']) = Inr ''/vault/new.md''
   \<and> fs_access env0 fs0 ''/vault/new.md'' = Inl ENOENT
   \<and> write_note env0 fs0 ''new.md'' (units ''c'') False
       = (fs0, Inl (WriteFailed (FileMissing ''new.md'')))"
proof -
  have a: "validate env0 fs0 (path_join [vaultDir env0, ''new.md'']) = Inr ''/vault/new.md''"
    and b: "fs_access env0 fs0 ''/vault/new.md'' = Inl ENOENT"
    and c: "lookupPath env0 fs0 True (path_dirname ''/vault/new.md'') = Found [''vault'']"
    and d: "fs0 [''vault''] = Some Dir"
    by code_simp+
  have "fs_access env0 fs0 ''/vault/new.md'' \<noteq> Inr ()"
    using b by simp
  from write_note_missing_target [OF a this, of "units ''c''"] show ?thesis
    using a b c d by auto
qed




end
